theory Spec2Isabelle
  imports Complex_Main
begin

section \<open>Numbers, built-ins and vectors\<close>

text \<open>
  The scene script \<^verbatim>\<open>src/main.js\<close> computes with JavaScript numbers. They are modelled as
  \<^typ>\<open>real\<close>: the rounding of double-precision arithmetic is not modelled, and neither are
  NaN, the infinities and the signed zero. Array indices and \<^verbatim>\<open>pathIndex\<close> are natural
  numbers.

  The particle buffers are \<^verbatim>\<open>Float32Array\<close>s, and a store into one rounds the number to
  single precision. This narrowing is \<open>fround\<close> below. It is applied in the ground mist loop,
  where a property is about the stored coordinates themselves; the other particle loops
  are modelled without it.

  \<^verbatim>\<open>Math.random()\<close> is an input of the program: the successive values it returns are
  given as a sequence, and every function that draws from it takes the position of the
  next draw and returns the position after its last draw.
\<close>

type_synonym rng = "nat \<Rightarrow> real"

text \<open>\<^verbatim>\<open>a % b\<close> on numbers (\<^verbatim>\<open>b\<close> not zero): the remainder of the division truncated
  towards zero.\<close>

definition js_trunc :: "real \<Rightarrow> int" where
  "js_trunc r = (if 0 \<le> r then \<lfloor>r\<rfloor> else \<lceil>r\<rceil>)"

definition js_rem :: "real \<Rightarrow> real \<Rightarrow> real" where
  "js_rem a b = a - b * of_int (js_trunc (a / b))"

text \<open>The store of a number into a \<^verbatim>\<open>Float32Array\<close> (\<^verbatim>\<open>Math.fround\<close>): the nearest
  number with a 24-bit significand at the binary exponent of \<open>x\<close> (not below the least
  normal exponent, \<open>-126\<close>), ties to the even significand. Numbers beyond the
  single-precision range, which are stored as an infinity, are left out.\<close>

definition round_even :: "real \<Rightarrow> int" where
  "round_even t =
     (if t - of_int \<lfloor>t\<rfloor> < 1/2 then \<lfloor>t\<rfloor>
      else if 1/2 < t - of_int \<lfloor>t\<rfloor> then \<lfloor>t\<rfloor> + 1
      else if even \<lfloor>t\<rfloor> then \<lfloor>t\<rfloor> else \<lfloor>t\<rfloor> + 1)"

definition fround :: "real \<Rightarrow> real" where
  "fround x =
     (if x = 0 then 0
      else (let e = max \<lfloor>log 2 \<bar>x\<bar>\<rfloor> (- 126);
                ulp = 2 powi (e - 23)
            in of_int (round_even (x / ulp)) * ulp))"

text \<open>\<^verbatim>\<open>Math.atan2(y, x)\<close>: the angle of the point \<open>(x, y)\<close>, in \<open>(-\<pi>, \<pi>]\<close>.\<close>

definition atan2 :: "real \<Rightarrow> real \<Rightarrow> real" where
  "atan2 y x =
     (if 0 < x then arctan (y / x)
      else if x < 0 then (if 0 \<le> y then arctan (y / x) + pi else arctan (y / x) - pi)
      else if 0 < y then pi / 2
      else if y < 0 then - (pi / 2)
      else 0)"

text \<open>\<^verbatim>\<open>THREE.Vector3\<close> and the operations \<^verbatim>\<open>animateCharacters\<close> calls on it.
  \<^verbatim>\<open>normalize()\<close> divides by \<^verbatim>\<open>length() || 1\<close>, so the zero vector stays zero.\<close>

record vec3 =
  vec_x :: real
  vec_y :: real
  vec_z :: real

definition vec_sub :: "vec3 \<Rightarrow> vec3 \<Rightarrow> vec3" where
  "vec_sub a b = \<lparr>vec_x = vec_x a - vec_x b, vec_y = vec_y a - vec_y b, vec_z = vec_z a - vec_z b\<rparr>"

definition vec_add :: "vec3 \<Rightarrow> vec3 \<Rightarrow> vec3" where
  "vec_add a b = \<lparr>vec_x = vec_x a + vec_x b, vec_y = vec_y a + vec_y b, vec_z = vec_z a + vec_z b\<rparr>"

definition multiplyScalar :: "vec3 \<Rightarrow> real \<Rightarrow> vec3" where
  "multiplyScalar v s = \<lparr>vec_x = vec_x v * s, vec_y = vec_y v * s, vec_z = vec_z v * s\<rparr>"

definition vec_length :: "vec3 \<Rightarrow> real" where
  "vec_length v = sqrt (vec_x v * vec_x v + vec_y v * vec_y v + vec_z v * vec_z v)"

definition normalize :: "vec3 \<Rightarrow> vec3" where
  "normalize v = multiplyScalar v (1 / (if vec_length v = 0 then 1 else vec_length v))"

definition distanceTo :: "vec3 \<Rightarrow> vec3 \<Rightarrow> real" where
  "distanceTo a b = vec_length (vec_sub a b)"

datatype error = TypeError

section \<open>Snow accumulation: the drifts\<close>

text \<open>
  A drift is a \<^verbatim>\<open>THREE.Mesh\<close> over a \<^verbatim>\<open>ConeGeometry\<close>, a child of
  \<^verbatim>\<open>snowAccumulationGroup\<close>. The record keeps the fields the code reads or writes:
  \<^verbatim>\<open>position\<close>, \<^verbatim>\<open>scale\<close>, \<^verbatim>\<open>rotation.y\<close>, \<^verbatim>\<open>geometry.parameters\<close> and the two
  \<^verbatim>\<open>userData\<close> entries. The children of the group are a list; a reference to a drift is
  its index in the list.
\<close>

record drift =
  position_x :: real
  position_y :: real
  position_z :: real
  scale_x :: real
  scale_y :: real
  scale_z :: real
  rotation_y :: real
  geometry_radius :: real
  geometry_height :: real
  geometry_segments :: nat
  maxHeight :: real
  growthRate :: real

text \<open>\<^verbatim>\<open>new THREE.Mesh(new THREE.ConeGeometry(radius, height, segments), material)\<close> followed
  by the assignments both creation sites make. Neither site assigns the scale, which a new
  mesh has at \<open>(1, 1, 1)\<close>.\<close>

definition new_drift ::
  "real \<Rightarrow> real \<Rightarrow> nat \<Rightarrow> real \<Rightarrow> real \<Rightarrow> real \<Rightarrow> real \<Rightarrow> drift" where
  "new_drift radius height segments x z rot rate =
     \<lparr>position_x = x, position_y = height / 2, position_z = z,
      scale_x = 1, scale_y = 1, scale_z = 1,
      rotation_y = rot,
      geometry_radius = radius, geometry_height = height, geometry_segments = segments,
      maxHeight = height * 2, growthRate = rate\<rparr>"

text \<open>\<^verbatim>\<open>createInitialSnowDrifts\<close>: \<open>n\<close> iterations of the loop body (the code runs 100), seven
  draws each.\<close>

fun createInitialSnowDrifts :: "rng \<Rightarrow> nat \<Rightarrow> nat \<Rightarrow> drift list" where
  "createInitialSnowDrifts rnd k 0 = []"
| "createInitialSnowDrifts rnd k (Suc n) =
     new_drift (rnd k * 2 + 1) (rnd (k + 1) * 0.3 + 0.1) (nat \<lfloor>rnd (k + 2) * 6\<rfloor> + 6)
        ((rnd (k + 3) - 0.5) * 80) ((rnd (k + 4) - 0.5) * 80) (rnd (k + 5) * pi)
        (0.0001 + rnd (k + 6) * 0.0001)
     # createInitialSnowDrifts rnd (k + 7) n"

text \<open>The growth step, written out twice in the source (in \<^verbatim>\<open>addToSnowCover\<close> for the
  nearest drift and in \<^verbatim>\<open>updateSnow\<close> for every drift):
  \<^verbatim>\<open>if (d.scale.y < d.userData.maxHeight) { d.scale.y += rate; d.scale.x += rate * 0.5;
  d.scale.z += rate * 0.5; d.position.y = d.geometry.parameters.height * d.scale.y / 2; }\<close>\<close>

definition grow_drift :: "drift \<Rightarrow> drift" where
  "grow_drift d =
     (if scale_y d < maxHeight d then
        d\<lparr>scale_y := scale_y d + growthRate d,
          scale_x := scale_x d + growthRate d * 0.5,
          scale_z := scale_z d + growthRate d * 0.5,
          position_y := geometry_height d * (scale_y d + growthRate d) / 2\<rparr>
      else d)"

text \<open>The three variables the \<^verbatim>\<open>forEach\<close> of \<^verbatim>\<open>addToSnowCover\<close> updates.
  \<^verbatim>\<open>minDistance\<close> starts at \<^verbatim>\<open>Infinity\<close>, which is \<open>None\<close> here.\<close>

record scan_state =
  foundExisting :: bool
  nearestDrift :: "nat option"
  minDistance :: "real option"

definition scan_init :: scan_state where
  "scan_init = \<lparr>foundExisting = False, nearestDrift = None, minDistance = None\<rparr>"

definition drift_distance :: "real \<Rightarrow> real \<Rightarrow> drift \<Rightarrow> real" where
  "drift_distance x z d = sqrt ((position_x d - x)\<^sup>2 + (position_z d - z)\<^sup>2)"

definition scan_step :: "real \<Rightarrow> real \<Rightarrow> scan_state \<Rightarrow> nat \<times> drift \<Rightarrow> scan_state" where
  "scan_step x z st ixd =
     (let distance = drift_distance x z (snd ixd) in
      if distance < 2 then
        (if (case minDistance st of None \<Rightarrow> True | Some m \<Rightarrow> distance < m)
         then st\<lparr>foundExisting := True, nearestDrift := Some (fst ixd), minDistance := Some distance\<rparr>
         else st\<lparr>foundExisting := True\<rparr>)
      else st)"

definition scan_drifts :: "real \<Rightarrow> real \<Rightarrow> drift list \<Rightarrow> scan_state" where
  "scan_drifts x z children = foldl (scan_step x z) scan_init (enumerate 0 children)"

text \<open>\<^verbatim>\<open>addToSnowCover(x, z)\<close> on the children of the group and the position of the next
  random draw.\<close>

definition addToSnowCover :: "rng \<Rightarrow> real \<Rightarrow> real \<Rightarrow> drift list \<times> nat \<Rightarrow> drift list \<times> nat" where
  "addToSnowCover rnd x z s =
     (let children = fst s; k = snd s; st = scan_drifts x z children in
      case (if foundExisting st then nearestDrift st else None) of
        Some i \<Rightarrow> (children[i := grow_drift (children ! i)], k)
      | None \<Rightarrow>
          if rnd k < 0.05 then
            (let height = 0.2 + rnd (k + 1) * 0.2 in
             (children @ [new_drift 0.5 height 8 x z (rnd (k + 2) * pi)
                            (0.0001 + rnd (k + 3) * 0.0001)],
              k + 4))
          else (children, k + 1))"

section \<open>Particles\<close>

text \<open>
  A particle system keeps parallel flat arrays (\<^verbatim>\<open>positions\<close>, \<^verbatim>\<open>velocities\<close> of length \<open>3N\<close>,
  \<^verbatim>\<open>lifetimes\<close> and \<^verbatim>\<open>sizes\<close> of length \<open>N\<close>), always read and written through the indices
  \<^verbatim>\<open>i\<close>, \<^verbatim>\<open>i + 1\<close>, \<^verbatim>\<open>i + 2\<close> and \<^verbatim>\<open>idx = i / 3\<close> of one particle. Here a system is the list
  of its particles, in array order: \<open>pos_x\<close>, \<open>pos_y\<close>, \<open>pos_z\<close> are \<^verbatim>\<open>positions[i]\<close>,
  \<^verbatim>\<open>positions[i + 1]\<close>, \<^verbatim>\<open>positions[i + 2]\<close>, and likewise for the velocities.
\<close>

record particle =
  pos_x :: real
  pos_y :: real
  pos_z :: real
  vel_x :: real
  vel_y :: real
  vel_z :: real

record smoke_particle = particle +
  lifetime :: real

record firefly =
  fly_x :: real
  fly_y :: real
  fly_z :: real
  fly_size :: real

subsection \<open>Falling snow\<close>

text \<open>One iteration of the loop of \<^verbatim>\<open>animateSnow\<close>.\<close>

definition animateSnow_particle :: "rng \<Rightarrow> real \<Rightarrow> particle \<times> nat \<Rightarrow> particle \<times> nat" where
  "animateSnow_particle rnd time pk =
     (let p = fst pk; k = snd pk;
          windX = sin (time * 0.5) * 0.1;
          windZ = cos (time * 0.3) * 0.1;
          p = p\<lparr>pos_x := pos_x p + (vel_x p + windX),
                pos_y := pos_y p + vel_y p,
                pos_z := pos_z p + (vel_z p + windZ)\<rparr>;
          pk' = (if pos_y p < 0 then
                   (\<lparr>pos_x = (rnd k - 0.5) * 120, pos_y = 80, pos_z = (rnd (k + 1) - 0.5) * 120,
                     vel_x = (rnd (k + 2) - 0.5) * 0.2,
                     vel_y = - rnd (k + 3) * 0.3 - 0.2,
                     vel_z = (rnd (k + 4) - 0.5) * 0.2\<rparr>, k + 5)
                 else (p, k));
          p = fst pk';
          p = (if pos_x p > 60 then p\<lparr>pos_x := - 60\<rparr> else p);
          p = (if pos_x p < - 60 then p\<lparr>pos_x := 60\<rparr> else p);
          p = (if pos_z p > 60 then p\<lparr>pos_z := - 60\<rparr> else p);
          p = (if pos_z p < - 60 then p\<lparr>pos_z := 60\<rparr> else p)
      in (p, snd pk'))"

fun animateSnow_loop :: "rng \<Rightarrow> real \<Rightarrow> particle list \<Rightarrow> nat \<Rightarrow> particle list \<times> nat" where
  "animateSnow_loop rnd time [] k = ([], k)"
| "animateSnow_loop rnd time (p # ps) k =
     (let pk = animateSnow_particle rnd time (p, k);
          r = animateSnow_loop rnd time ps (snd pk)
      in (fst pk # fst r, snd r))"

text \<open>\<^verbatim>\<open>animateSnow()\<close>; \<^verbatim>\<open>this.snow\<close> may be unset.\<close>

definition animateSnow ::
  "rng \<Rightarrow> real \<Rightarrow> particle list option \<times> nat \<Rightarrow> particle list option \<times> nat" where
  "animateSnow rnd time s =
     (case fst s of
        None \<Rightarrow> s
      | Some ps \<Rightarrow> (let r = animateSnow_loop rnd time ps (snd s) in (Some (fst r), snd r)))"

text \<open>\<^verbatim>\<open>updateSnow()\<close>, first loop: every drift grows with one draw below 0.01.\<close>

fun settle_drifts :: "rng \<Rightarrow> nat \<Rightarrow> drift list \<Rightarrow> drift list" where
  "settle_drifts rnd k [] = []"
| "settle_drifts rnd k (d # ds) =
     (if rnd k < 0.01 then grow_drift d else d) # settle_drifts rnd (k + 1) ds"

text \<open>\<^verbatim>\<open>updateSnow()\<close>, second loop: a particle at or below the ground is recorded in the
  snow cover and reset.\<close>

fun land_particles ::
  "rng \<Rightarrow> particle list \<Rightarrow> drift list \<times> nat \<Rightarrow> particle list \<times> drift list \<times> nat" where
  "land_particles rnd [] s = ([], s)"
| "land_particles rnd (p # ps) s =
     (if pos_y p \<le> 0 then
        (let s' = addToSnowCover rnd (pos_x p) (pos_z p) s;
             k = snd s';
             p' = \<lparr>pos_x = (rnd k - 0.5) * 100, pos_y = 50, pos_z = (rnd (k + 1) - 0.5) * 100,
                   vel_x = (rnd (k + 2) - 0.5) * 0.1,
                   vel_y = - rnd (k + 3) * 0.5 - 0.1,
                   vel_z = (rnd (k + 4) - 0.5) * 0.1\<rparr>;
             r = land_particles rnd ps (fst s', k + 5)
         in (p' # fst r, snd r))
      else (let r = land_particles rnd ps s in (p # fst r, snd r)))"

record snow_scene =
  snowAccumulationGroup :: "drift list"
  snow :: "particle list option"

definition updateSnow :: "rng \<Rightarrow> snow_scene \<times> nat \<Rightarrow> snow_scene \<times> nat" where
  "updateSnow rnd s =
     (let sc = fst s; k = snd s;
          drifts = settle_drifts rnd k (snowAccumulationGroup sc);
          k = k + length (snowAccumulationGroup sc)
      in case snow sc of
           None \<Rightarrow> (sc\<lparr>snowAccumulationGroup := drifts\<rparr>, k)
         | Some ps \<Rightarrow>
             (let r = land_particles rnd ps (drifts, k)
              in (\<lparr>snowAccumulationGroup = fst (snd r), snow = Some (fst r)\<rparr>, snd (snd r))))"

text \<open>A run of the snow model: impacts (\<^verbatim>\<open>addToSnowCover\<close> calls) and background ticks
  (\<^verbatim>\<open>updateSnow\<close> calls, which make further impacts themselves) in any order.\<close>

datatype snow_event = Impact real real | Tick

fun snow_step :: "rng \<Rightarrow> snow_event \<Rightarrow> snow_scene \<times> nat \<Rightarrow> snow_scene \<times> nat" where
  "snow_step rnd (Impact x z) s =
     (let r = addToSnowCover rnd x z (snowAccumulationGroup (fst s), snd s)
      in ((fst s)\<lparr>snowAccumulationGroup := fst r\<rparr>, snd r))"
| "snow_step rnd Tick s = updateSnow rnd s"

fun snow_run :: "rng \<Rightarrow> snow_event list \<Rightarrow> snow_scene \<times> nat \<Rightarrow> snow_scene \<times> nat" where
  "snow_run rnd [] s = s"
| "snow_run rnd (e # es) s = snow_run rnd es (snow_step rnd e s)"

subsection \<open>Smoke, fireflies and ground mist\<close>

text \<open>One iteration of the smoke loop of \<^verbatim>\<open>updateParticleSystems(deltaTime)\<close>.\<close>

definition smoke_particle_step ::
  "rng \<Rightarrow> real \<Rightarrow> smoke_particle \<times> nat \<Rightarrow> smoke_particle \<times> nat" where
  "smoke_particle_step rnd deltaTime pk =
     (let p = fst pk; k = snd pk;
          p = p\<lparr>lifetime := lifetime p + deltaTime\<rparr>
      in if lifetime p \<ge> 1 then
           (p\<lparr>pos_x := (rnd k - 0.5) * 0.1, pos_y := 0, pos_z := (rnd (k + 1) - 0.5) * 0.1,
              lifetime := 0\<rparr>, k + 2)
         else
           (p\<lparr>pos_x := pos_x p + vel_x p * deltaTime,
              pos_y := pos_y p + vel_y p * deltaTime,
              pos_z := pos_z p + vel_z p * deltaTime\<rparr>, k))"

fun smoke_loop :: "rng \<Rightarrow> real \<Rightarrow> smoke_particle list \<Rightarrow> nat \<Rightarrow> smoke_particle list \<times> nat" where
  "smoke_loop rnd deltaTime [] k = ([], k)"
| "smoke_loop rnd deltaTime (p # ps) k =
     (let pk = smoke_particle_step rnd deltaTime (p, k);
          r = smoke_loop rnd deltaTime ps (snd pk)
      in (fst pk # fst r, snd r))"

fun smoke_systems ::
  "rng \<Rightarrow> real \<Rightarrow> smoke_particle list list \<Rightarrow> nat \<Rightarrow> smoke_particle list list \<times> nat" where
  "smoke_systems rnd deltaTime [] k = ([], k)"
| "smoke_systems rnd deltaTime (sm # sms) k =
     (let a = smoke_loop rnd deltaTime sm k;
          r = smoke_systems rnd deltaTime sms (snd a)
      in (fst a # fst r, snd r))"

text \<open>The firefly loop; \<open>idx\<close> counts the particles.\<close>

fun firefly_loop :: "rng \<Rightarrow> real \<Rightarrow> nat \<Rightarrow> firefly list \<Rightarrow> nat \<Rightarrow> firefly list \<times> nat" where
  "firefly_loop rnd time idx [] k = ([], k)"
| "firefly_loop rnd time idx (f # fs) k =
     (let f' = f\<lparr>fly_size := (sin (time * 2 + real idx) * 0.1 + 0.2) * (rnd k * 0.2 + 0.9),
                 fly_y := fly_y f + sin (time + real idx) * 0.002\<rparr>;
          r = firefly_loop rnd time (idx + 1) fs (k + 1)
      in (f' # fst r, snd r))"

text \<open>One iteration of the ground mist loop; \<open>i\<close> is the index into the flat array, three
  times the number of the particle. Every assignment to \<^verbatim>\<open>positions\<close> stores the number
  in single precision, and the radius and the angle are computed from the stored
  numbers.\<close>

definition mist_particle_step :: "real \<Rightarrow> nat \<Rightarrow> particle \<Rightarrow> particle" where
  "mist_particle_step time i p =
     (let p = p\<lparr>pos_x := fround (pos_x p + vel_x p),
                pos_y := fround (pos_y p + sin (time + real i) * 0.001),
                pos_z := fround (pos_z p + vel_z p)\<rparr>;
          radius = sqrt (pos_x p * pos_x p + pos_z p * pos_z p)
      in if radius > 40 then
           (let angle = atan2 (pos_z p) (pos_x p)
            in p\<lparr>pos_x := fround (cos angle * 40), pos_z := fround (sin angle * 40)\<rparr>)
         else p)"

fun mist_loop :: "real \<Rightarrow> nat \<Rightarrow> particle list \<Rightarrow> particle list" where
  "mist_loop time i [] = []"
| "mist_loop time i (p # ps) = mist_particle_step time i p # mist_loop time (i + 3) ps"

record particle_systems =
  chimneySmoke :: "smoke_particle list list"
  fireflies :: "firefly list option"
  groundMist :: "particle list option"

text \<open>\<^verbatim>\<open>updateParticleSystems(deltaTime)\<close>; \<open>time\<close> is the reading of
  \<^verbatim>\<open>this.clock.getElapsedTime()\<close> during the call.\<close>

definition updateParticleSystems ::
  "rng \<Rightarrow> real \<Rightarrow> real \<Rightarrow> particle_systems \<times> nat \<Rightarrow> particle_systems \<times> nat" where
  "updateParticleSystems rnd deltaTime time s =
     (let sys = fst s;
          sm = smoke_systems rnd deltaTime (chimneySmoke sys) (snd s);
          ff = (case fireflies sys of
                  None \<Rightarrow> (None, snd sm)
                | Some fs \<Rightarrow> (let r = firefly_loop rnd time 0 fs (snd sm) in (Some (fst r), snd r)));
          gm = (case groundMist sys of
                  None \<Rightarrow> None
                | Some ps \<Rightarrow> Some (mist_loop time 0 ps))
      in (\<lparr>chimneySmoke = fst sm, fireflies = fst ff, groundMist = gm\<rparr>, snd ff))"

text \<open>Successive calls, each with its \<open>(deltaTime, time)\<close>.\<close>

fun particle_ticks ::
  "rng \<Rightarrow> (real \<times> real) list \<Rightarrow> particle_systems \<times> nat \<Rightarrow> particle_systems \<times> nat" where
  "particle_ticks rnd [] s = s"
| "particle_ticks rnd (t # ts) s =
     particle_ticks rnd ts (updateParticleSystems rnd (fst t) (snd t) s)"

section \<open>Level of detail of the houses\<close>

text \<open>\<^verbatim>\<open>createDetailedHouses\<close> gives every house three levels, in this order:
  \<^verbatim>\<open>addLevel(highDetailHouse, 0)\<close>, \<^verbatim>\<open>addLevel(mediumDetailHouse, 50)\<close>,
  \<^verbatim>\<open>addLevel(lowDetailHouse, 100)\<close>.\<close>

datatype detail = HighDetail | MediumDetail | LowDetail

definition houseLOD :: "(detail \<times> real) list" where
  "houseLOD = [(HighDetail, 0), (MediumDetail, 50), (LowDetail, 100)]"

text \<open>Modelled from the spec: \<^verbatim>\<open>THREE.LOD.update(camera)\<close>, which \<^verbatim>\<open>animate\<close> calls on every
  house, is library code outside the repository. The spec's contract for it is: "given
  camera distance to an entity's anchor point, select the level whose threshold is the
  greatest value \<open>\<le>\<close> distance", "ties broken by preferring the higher-detail
  (lower-threshold) level". \<open>lod_pick\<close> scans the levels in order and keeps the best one
  seen so far; a later level replaces it only with a strictly greater threshold.\<close>

fun lod_pick :: "real \<Rightarrow> ('a \<times> real) option \<Rightarrow> ('a \<times> real) list \<Rightarrow> ('a \<times> real) option" where
  "lod_pick distance best [] = best"
| "lod_pick distance best (l # ls) =
     lod_pick distance
       (if snd l \<le> distance \<and> (case best of None \<Rightarrow> True | Some b \<Rightarrow> snd b < snd l)
        then Some l else best)
       ls"

definition lod_select :: "('a \<times> real) list \<Rightarrow> real \<Rightarrow> ('a \<times> real) option" where
  "lod_select levels distance = lod_pick distance None levels"

text \<open>The gate of \<^verbatim>\<open>animate\<close>: the levels are selected again only when
  \<^verbatim>\<open>camera.matrixWorldNeedsUpdate\<close> is set; otherwise the level shown stays.\<close>

definition lod_frame ::
  "bool \<Rightarrow> ('a \<times> real) list \<Rightarrow> real \<Rightarrow> ('a \<times> real) option \<Rightarrow> ('a \<times> real) option" where
  "lod_frame matrixWorldNeedsUpdate levels distance shown =
     (if matrixWorldNeedsUpdate then lod_select levels distance else shown)"

section \<open>Path followers: the elves and Santa\<close>

text \<open>The fields of a character that \<^verbatim>\<open>animateCharacters\<close> reads or writes.
  \<^verbatim>\<open>lookAt(nextPoint)\<close> is kept as the point the character was last turned to; the four
  limbs are the \<^verbatim>\<open>rotation.x\<close> of the children the code animates.\<close>

record follower =
  position :: vec3
  path :: "vec3 list"
  pathIndex :: nat
  moveSpeed :: real
  lookAt :: "vec3 option"
  leftArm :: real
  rightArm :: real
  leftLeg :: real
  rightLeg :: real

text \<open>The character after \<^verbatim>\<open>position.add(direction.multiplyScalar(moveSpeed))\<close>,
  \<^verbatim>\<open>lookAt(nextPoint)\<close> and the limb assignments, before the arrival test. \<open>freq\<close> and \<open>amp\<close>
  are 5 and 0.5 for an elf, 4 and 0.3 for Santa.\<close>

definition nextPoint :: "follower \<Rightarrow> vec3" where
  "nextPoint e = path e ! ((pathIndex e + 1) mod length (path e))"

definition moved :: "real \<Rightarrow> real \<Rightarrow> real \<Rightarrow> follower \<Rightarrow> follower" where
  "moved freq amp time e =
     (let currentPoint = path e ! pathIndex e;
          direction = normalize (vec_sub (nextPoint e) currentPoint)
      in e\<lparr>position := vec_add (position e) (multiplyScalar direction (moveSpeed e)),
           lookAt := Some (nextPoint e),
           leftArm := sin (time * freq) * amp,
           rightArm := - sin (time * freq) * amp,
           leftLeg := - sin (time * freq) * amp,
           rightLeg := sin (time * freq) * amp\<rparr>)"

text \<open>The arrival test \<^verbatim>\<open>position.distanceTo(nextPoint) < 0.1\<close>, made after the move.\<close>

definition arrived :: "follower \<Rightarrow> bool" where
  "arrived e = (distanceTo (position e) (nextPoint e) < 0.1)"

text \<open>One character in one call of \<^verbatim>\<open>animateCharacters\<close>. Where \<^verbatim>\<open>path[pathIndex]\<close> or
  \<^verbatim>\<open>path[(pathIndex + 1) % path.length]\<close> is \<^verbatim>\<open>undefined\<close> (an empty path, or an index past
  its end) the vector subtraction throws a \<^verbatim>\<open>TypeError\<close>.\<close>

definition follow :: "real \<Rightarrow> real \<Rightarrow> real \<Rightarrow> follower \<Rightarrow> error + follower" where
  "follow freq amp time e =
     (if pathIndex e < length (path e) then
        (let e' = moved freq amp time e
         in Inr (if arrived e' then e'\<lparr>pathIndex := (pathIndex e + 1) mod length (path e)\<rparr>
                 else e'))
      else Inl TypeError)"

definition animate_elf :: "real \<Rightarrow> follower \<Rightarrow> error + follower" where
  "animate_elf time e = follow 5 0.5 time e"

definition animate_santa :: "real \<Rightarrow> follower \<Rightarrow> error + follower" where
  "animate_santa time e = follow 4 0.3 time e"

fun animate_elves :: "real \<Rightarrow> follower list \<Rightarrow> error + follower list" where
  "animate_elves time [] = Inr []"
| "animate_elves time (e # es) =
     (case animate_elf time e of
        Inl err \<Rightarrow> Inl err
      | Inr e' \<Rightarrow> (case animate_elves time es of
                     Inl err \<Rightarrow> Inl err
                   | Inr es' \<Rightarrow> Inr (e' # es')))"

record characters =
  elves :: "follower list"
  santa :: "follower option"

text \<open>\<^verbatim>\<open>animateCharacters()\<close>; \<open>time\<close> is the reading of the clock.\<close>

definition animateCharacters :: "real \<Rightarrow> characters \<Rightarrow> error + characters" where
  "animateCharacters time c =
     (case animate_elves time (elves c) of
        Inl err \<Rightarrow> Inl err
      | Inr es \<Rightarrow>
          (case santa c of
             None \<Rightarrow> Inr \<lparr>elves = es, santa = None\<rparr>
           | Some s \<Rightarrow> (case animate_santa time s of
                          Inl err \<Rightarrow> Inl err
                        | Inr s' \<Rightarrow> Inr \<lparr>elves = es, santa = Some s'\<rparr>)))"

text \<open>Successive ticks of one character, one clock reading each, and the number of those
  ticks in which the arrival test succeeded.\<close>

fun follow_ticks :: "real \<Rightarrow> real \<Rightarrow> real list \<Rightarrow> follower \<Rightarrow> error + follower" where
  "follow_ticks freq amp [] e = Inr e"
| "follow_ticks freq amp (t # ts) e =
     (case follow freq amp t e of
        Inl err \<Rightarrow> Inl err
      | Inr e' \<Rightarrow> follow_ticks freq amp ts e')"

fun arrivals :: "real \<Rightarrow> real \<Rightarrow> real list \<Rightarrow> follower \<Rightarrow> nat" where
  "arrivals freq amp [] e = 0"
| "arrivals freq amp (t # ts) e =
     (case follow freq amp t e of
        Inl err \<Rightarrow> 0
      | Inr e' \<Rightarrow> (if arrived (moved freq amp t e) then 1 else 0) + arrivals freq amp ts e')"

section \<open>The frame loop\<close>

text \<open>One call of \<^verbatim>\<open>animate()\<close> reads three clocks: \<^verbatim>\<open>this.clock.getDelta()\<close> and
  \<^verbatim>\<open>this.clock.getElapsedTime()\<close> (seconds) and \<^verbatim>\<open>performance.now()\<close> (milliseconds).\<close>

record clock_reading =
  deltaTime :: real
  elapsed :: real
  currentTime :: real

text \<open>The throttle: \<^verbatim>\<open>!this.lastFrameTime || currentTime - this.lastFrameTime >= frameTime\<close>
  with \<^verbatim>\<open>frameTime = 1000 / 60\<close>. \<open>None\<close> is the unset \<^verbatim>\<open>lastFrameTime\<close>.\<close>

definition frame_due :: "real option \<Rightarrow> real \<Rightarrow> bool" where
  "frame_due lastFrameTime now =
     (case lastFrameTime of
        None \<Rightarrow> True
      | Some l \<Rightarrow> l = 0 \<or> now - l \<ge> 1000 / 60)"

text \<open>\<^verbatim>\<open>const frameSkip = time % 2 < deltaTime; // Only update every other frame\<close>.
  When it holds, the frame runs \<^verbatim>\<open>updateParticleSystems\<close>, \<^verbatim>\<open>updateSnow\<close> and
  \<^verbatim>\<open>updateAudio\<close>.\<close>

definition frameSkip :: "real \<Rightarrow> real \<Rightarrow> bool" where
  "frameSkip time dt = (js_rem time 2 < dt)"

text \<open>What a sequence of \<^verbatim>\<open>animate()\<close> calls does: for every call, whether the frame body was
  executed and whether the secondary updates ran in it.\<close>

fun animate_trace :: "real option \<Rightarrow> clock_reading list \<Rightarrow> (bool \<times> bool) list" where
  "animate_trace lastFrameTime [] = []"
| "animate_trace lastFrameTime (c # cs) =
     (if frame_due lastFrameTime (currentTime c)
      then (True, frameSkip (elapsed c) (deltaTime c)) # animate_trace (Some (currentTime c)) cs
      else (False, False) # animate_trace lastFrameTime cs)"

text \<open>The snow in one executed frame of \<^verbatim>\<open>animate()\<close>: \<^verbatim>\<open>this.animateSnow()\<close> always, and
  \<^verbatim>\<open>this.updateSnow()\<close> after it when the secondary updates run.\<close>

definition snow_frame :: "rng \<Rightarrow> real \<Rightarrow> bool \<Rightarrow> snow_scene \<times> nat \<Rightarrow> snow_scene \<times> nat" where
  "snow_frame rnd time secondary s =
     (let a = animateSnow rnd time (snow (fst s), snd s);
          s1 = ((fst s)\<lparr>snow := fst a\<rparr>, snd a)
      in if secondary then updateSnow rnd s1 else s1)"

section \<open>Auxiliary predicates and example data\<close>

text \<open>What holds of the three variables of the scan in \<^verbatim>\<open>addToSnowCover\<close> after the drifts
  \<open>ds\<close> have been visited: \<^verbatim>\<open>foundExisting\<close> is set exactly when some drift lies within
  distance 2, and then \<^verbatim>\<open>nearestDrift\<close> is the first drift at the least distance.\<close>

definition scan_inv :: "real \<Rightarrow> real \<Rightarrow> drift list \<Rightarrow> scan_state \<Rightarrow> bool" where
  "scan_inv x z ds st =
     (if foundExisting st then
        (\<exists>i<length ds. nearestDrift st = Some i
            \<and> minDistance st = Some (drift_distance x z (ds ! i))
            \<and> drift_distance x z (ds ! i) < 2
            \<and> (\<forall>j<length ds. drift_distance x z (ds ! i) \<le> drift_distance x z (ds ! j))
            \<and> (\<forall>j<i. drift_distance x z (ds ! i) < drift_distance x z (ds ! j)))
      else nearestDrift st = None \<and> minDistance st = None
           \<and> (\<forall>j<length ds. \<not> drift_distance x z (ds ! j) < 2))"

text \<open>How a drift, and a list of drifts, may have changed between two moments of a run: no
  drift is lost, \<^verbatim>\<open>scale.y\<close> has not decreased and is at most the larger of its earlier value
  and \<open>maxHeight + growthRate\<close>, and the two \<^verbatim>\<open>userData\<close> entries are the same.\<close>

definition drift_grown :: "drift \<Rightarrow> drift \<Rightarrow> bool" where
  "drift_grown d d' =
     (scale_y d \<le> scale_y d'
      \<and> scale_y d' \<le> max (scale_y d) (maxHeight d + growthRate d)
      \<and> maxHeight d' = maxHeight d \<and> growthRate d' = growthRate d)"

definition drifts_grown :: "drift list \<Rightarrow> drift list \<Rightarrow> bool" where
  "drifts_grown ds ds' =
     (length ds \<le> length ds' \<and> (\<forall>i<length ds. drift_grown (ds ! i) (ds' ! i)))"

definition rates_ok :: "drift list \<Rightarrow> bool" where
  "rates_ok ds = (\<forall>d\<in>set ds. 0 \<le> growthRate d)"

text \<open>Two drifts for the examples: one 5 units from the origin as the code creates it, and one
  at the origin that is below its \<open>maxHeight\<close>.\<close>

definition far_drift :: drift where
  "far_drift = new_drift 1 (1/4) 6 3 4 0 (1/8192)"

definition near_drift :: drift where
  "near_drift = (new_drift 1 (1/2) 6 0 0 0 (1/8))\<lparr>maxHeight := 2\<rparr>"

text \<open>The scene before any drift exists, with no falling snow.\<close>

definition empty_scene :: snow_scene where
  "empty_scene = \<lparr>snowAccumulationGroup = [], snow = None\<rparr>"

text \<open>A character at the first of two waypoints that are 1/16 apart, moving 1/32 per
  tick.\<close>

definition walker :: follower where
  "walker = \<lparr>position = \<lparr>vec_x = 0, vec_y = 0, vec_z = 0\<rparr>,
             path = [\<lparr>vec_x = 0, vec_y = 0, vec_z = 0\<rparr>, \<lparr>vec_x = 1/16, vec_y = 0, vec_z = 0\<rparr>],
             pathIndex = 0, moveSpeed = 1/32, lookAt = None,
             leftArm = 0, rightArm = 0, leftLeg = 0, rightLeg = 0\<rparr>"



definition smoke_puff :: smoke_particle where
  "smoke_puff = \<lparr>pos_x = 0, pos_y = 1/4, pos_z = 0, vel_x = 1/128, vel_y = 1/16, vel_z = 0,
                 lifetime = 1/2\<rparr>"

definition drifting_scene :: particle_systems where
  "drifting_scene =
     \<lparr>chimneySmoke = [[smoke_puff]],
      fireflies = Some [\<lparr>fly_x = 20, fly_y = 2, fly_z = 0, fly_size = 1/4\<rparr>],
      groundMist = Some [\<lparr>pos_x = 0, pos_y = 0, pos_z = 0,
                          vel_x = 1/256, vel_y = 0, vel_z = 0\<rparr>]\<rparr>"

text \<open>A flake just above the ground, and draws under which any impact on an empty scene
  spawns a drift (after the five draws of a reset).\<close>

definition falling_flake :: particle where
  "falling_flake = \<lparr>pos_x = 0, pos_y = 1/8, pos_z = 0, vel_x = 0, vel_y = - (1/4), vel_z = 0\<rparr>"

definition landing_draws :: rng where
  "landing_draws n = (if n < 5 then 1/2 else 0)"

section \<open>Level of detail: the selected level\<close>

lemma lod_pick_None:
  "lod_pick d best ls = None \<Longrightarrow> best = None \<and> (\<forall>l\<in>set ls. \<not> snd l \<le> d)"
proof (induction ls arbitrary: best)
  case Nil
  then show ?case by simp
next
  case (Cons l ls)
  let ?c = "snd l \<le> d \<and> (case best of None \<Rightarrow> True | Some b \<Rightarrow> snd b < snd l)"
  from Cons.prems have "lod_pick d (if ?c then Some l else best) ls = None" by simp
  from Cons.IH[OF this] show ?case by (auto split: if_splits)
qed

lemma lod_pick_Some:
  assumes "lod_pick d best ls = Some r" and "\<And>b. best = Some b \<Longrightarrow> snd b \<le> d"
  shows "(r \<in> set ls \<or> best = Some r) \<and> snd r \<le> d
         \<and> (\<forall>l\<in>set ls. snd l \<le> d \<longrightarrow> snd l \<le> snd r)
         \<and> (\<forall>b. best = Some b \<longrightarrow> snd b \<le> snd r)"
  using assms
proof (induction ls arbitrary: best)
  case Nil
  then show ?case by simp
next
  case (Cons l ls)
  let ?c = "snd l \<le> d \<and> (case best of None \<Rightarrow> True | Some b \<Rightarrow> snd b < snd l)"
  show ?case
  proof (cases ?c)
    case True
    with Cons.prems(1) have p: "lod_pick d (Some l) ls = Some r" by simp
    have q: "\<And>b. Some l = Some b \<Longrightarrow> snd b \<le> d" using True by simp
    from Cons.IH[OF p q] have
      ih: "(r \<in> set ls \<or> l = r) \<and> snd r \<le> d
           \<and> (\<forall>l\<in>set ls. snd l \<le> d \<longrightarrow> snd l \<le> snd r) \<and> snd l \<le> snd r"
      by simp
    show ?thesis
    proof (cases best)
      case None
      with ih show ?thesis by auto
    next
      case (Some b)
      with True have "snd b < snd l" by simp
      with ih Some show ?thesis by auto
    qed
  next
    case False
    with Cons.prems(1) have p: "lod_pick d best ls = Some r" by simp
    from Cons.IH[OF p Cons.prems(2)] have
      ih: "(r \<in> set ls \<or> best = Some r) \<and> snd r \<le> d
           \<and> (\<forall>l\<in>set ls. snd l \<le> d \<longrightarrow> snd l \<le> snd r)
           \<and> (\<forall>b. best = Some b \<longrightarrow> snd b \<le> snd r)"
      by simp
    have "snd l \<le> d \<longrightarrow> snd l \<le> snd r"
    proof (cases best)
      case None
      with False show ?thesis by simp
    next
      case (Some b)
      with False ih show ?thesis by auto
    qed
    with ih show ?thesis by auto
  qed
qed

text \<open>Claim C3, as the code's thresholds allow it: for the house levels at thresholds
  \<open>[0, 50, 100]\<close> and any camera distance \<open>d \<ge> 0\<close>, the selected level is a level of the house
  whose threshold is the greatest one not above \<open>d\<close>. At distance 75 and at distance 99 that
  is the medium level (threshold 50); at distances 100, 149 and 150 it is the lowest-detail
  level (threshold 100).\<close>

theorem lod_select_houseLOD:
  "0 \<le> d \<Longrightarrow>
     (\<exists>l. lod_select houseLOD d = Some l \<and> l \<in> set houseLOD \<and> snd l \<le> d
          \<and> (\<forall>l'\<in>set houseLOD. snd l' \<le> d \<longrightarrow> snd l' \<le> snd l))
     \<and> lod_select houseLOD 75 = Some (MediumDetail, 50)
     \<and> lod_select houseLOD 99 = Some (MediumDetail, 50)
     \<and> lod_select houseLOD 100 = Some (LowDetail, 100)
     \<and> lod_select houseLOD 149 = Some (LowDetail, 100)
     \<and> lod_select houseLOD 150 = Some (LowDetail, 100)"
proof -
  assume d: "0 \<le> d"
  have h: "(HighDetail, 0) \<in> set houseLOD" by (simp add: houseLOD_def)
  have "lod_select houseLOD d \<noteq> None"
    using lod_pick_None[of d None houseLOD] h d unfolding lod_select_def by fastforce
  then obtain l where l: "lod_pick d None houseLOD = Some l"
    unfolding lod_select_def by blast
  have "l \<in> set houseLOD \<and> snd l \<le> d
          \<and> (\<forall>l'\<in>set houseLOD. snd l' \<le> d \<longrightarrow> snd l' \<le> snd l)"
    using lod_pick_Some[OF l] by simp
  with l have g: "\<exists>l. lod_select houseLOD d = Some l \<and> l \<in> set houseLOD \<and> snd l \<le> d
          \<and> (\<forall>l'\<in>set houseLOD. snd l' \<le> d \<longrightarrow> snd l' \<le> snd l)"
    unfolding lod_select_def by blast
  have "lod_select houseLOD 75 = Some (MediumDetail, 50)"
       "lod_select houseLOD 99 = Some (MediumDetail, 50)"
       "lod_select houseLOD 100 = Some (LowDetail, 100)"
       "lod_select houseLOD 149 = Some (LowDetail, 100)"
       "lod_select houseLOD 150 = Some (LowDetail, 100)"
    by (simp_all add: lod_select_def houseLOD_def)
  with g show ?thesis by blast
qed

theorem lod_select_houseLOD_witness:
  "(0::real) \<le> 149 \<and> lod_select houseLOD 149 = Some (LowDetail, 100)
     \<and> (LowDetail, 100) \<in> set houseLOD \<and> (100::real) \<le> 149"
  using lod_select_houseLOD[of 149] by (simp add: houseLOD_def)

text \<open>Claim C3 as stated fails at camera distance 149: the greatest threshold not above 149
  is 100, so the level selected there is not the medium one.\<close>

theorem lod_select_149_not_medium:
  "map_option fst (lod_select houseLOD 149) \<noteq> Some MediumDetail"
  by (simp add: lod_select_def houseLOD_def)

text \<open>The gate of the frame loop: the selection is made again only when the camera has
  moved.\<close>

lemma lod_frame_cases:
  "lod_frame True levels distance shown = lod_select levels distance"
  "lod_frame False levels distance shown = shown"
  by (simp_all add: lod_frame_def)

section \<open>The frame loop: which frames run the secondary updates\<close>

text \<open>Between two even seconds of elapsed time, a frame whose \<open>deltaTime\<close> does not reach
  back over the even second never passes the test.\<close>

lemma frameSkip_false: "dt \<le> t \<Longrightarrow> 0 \<le> t \<Longrightarrow> t < 2 \<Longrightarrow> \<not> frameSkip t dt"
proof -
  assume a: "dt \<le> t" "0 \<le> t" "t < 2"
  then have "\<lfloor>t / 2\<rfloor> = 0" by (simp add: floor_eq_iff)
  with a show ?thesis by (simp add: frameSkip_def js_rem_def js_trunc_def)
qed

text \<open>A frame right at an even second passes it.\<close>

lemma frameSkip_after_even_second:
  "0 < dt \<Longrightarrow> frameSkip (2 * real n) dt"
  by (simp add: frameSkip_def js_rem_def js_trunc_def)

text \<open>Claim C9 (the secondary updates run on every other executed frame) on four successive
  calls of \<^verbatim>\<open>animate()\<close>, 125 ms apart, from elapsed time 0.5 s: every call executes its frame
  body, and the secondary updates run in none of them.\<close>

theorem secondary_updates_skip_consecutive_frames:
  "animate_trace None
     [\<lparr>deltaTime = 1/8, elapsed = 1/2, currentTime = 500\<rparr>,
      \<lparr>deltaTime = 1/8, elapsed = 5/8, currentTime = 625\<rparr>,
      \<lparr>deltaTime = 1/8, elapsed = 3/4, currentTime = 750\<rparr>,
      \<lparr>deltaTime = 1/8, elapsed = 7/8, currentTime = 875\<rparr>]
   = [(True, False), (True, False), (True, False), (True, False)]"
  by (simp add: frame_due_def frameSkip_def js_rem_def js_trunc_def)

section \<open>Snow accumulation: what an impact does\<close>

text \<open>The scan of \<^verbatim>\<open>addToSnowCover\<close>, one drift at a time.\<close>

lemma scan_drifts_snoc:
  "scan_drifts x z (ds @ [d]) = scan_step x z (scan_drifts x z ds) (length ds, d)"
  by (simp add: scan_drifts_def enumerate_append_eq)

lemma scan_inv_step:
  assumes "scan_inv x z ds st"
  shows "scan_inv x z (ds @ [d]) (scan_step x z st (length ds, d))"
proof (cases "foundExisting st")
  case False
  with assms have n: "nearestDrift st = None" "minDistance st = None"
    and far: "\<forall>j<length ds. \<not> drift_distance x z (ds ! j) < 2"
    by (simp_all add: scan_inv_def)
  show ?thesis
  proof (cases "drift_distance x z d < 2")
    case True
    have "\<forall>j<length ds. drift_distance x z d < drift_distance x z (ds ! j)"
      using far True by fastforce
    then show ?thesis using True n
      by (auto simp: scan_inv_def scan_step_def nth_append less_Suc_eq intro: less_imp_le)
  next
    case c: False
    then show ?thesis using False n far
      by (auto simp: scan_inv_def scan_step_def nth_append less_Suc_eq)
  qed
next
  case True
  with assms obtain i where i: "i < length ds" "nearestDrift st = Some i"
    "minDistance st = Some (drift_distance x z (ds ! i))"
    "drift_distance x z (ds ! i) < 2"
    "\<forall>j<length ds. drift_distance x z (ds ! i) \<le> drift_distance x z (ds ! j)"
    "\<forall>j<i. drift_distance x z (ds ! i) < drift_distance x z (ds ! j)"
    by (auto simp: scan_inv_def)
  show ?thesis
  proof (cases "drift_distance x z d < drift_distance x z (ds ! i)")
    case c: True
    then have lt2: "drift_distance x z d < 2" using i(4) by simp
    have a: "\<forall>j<length ds. drift_distance x z d \<le> drift_distance x z (ds ! j)"
      using c i(5) by fastforce
    have b: "\<forall>j<length ds. drift_distance x z d < drift_distance x z (ds ! j)"
      using c i(5) by fastforce
    show ?thesis using c lt2 i(3) a b
      by (auto simp: scan_inv_def scan_step_def nth_append less_Suc_eq)
  next
    case c: False
    have st': "scan_step x z st (length ds, d) = st"
      using c i(3) True by (simp add: scan_step_def Let_def)
    have "\<exists>i'<length (ds @ [d]). nearestDrift st = Some i'
            \<and> minDistance st = Some (drift_distance x z ((ds @ [d]) ! i'))
            \<and> drift_distance x z ((ds @ [d]) ! i') < 2
            \<and> (\<forall>j<length (ds @ [d]). drift_distance x z ((ds @ [d]) ! i') \<le> drift_distance x z ((ds @ [d]) ! j))
            \<and> (\<forall>j<i'. drift_distance x z ((ds @ [d]) ! i') < drift_distance x z ((ds @ [d]) ! j))"
    proof (intro exI[of _ i] conjI)
      show "i < length (ds @ [d])" using i(1) by simp
      show "nearestDrift st = Some i" by (rule i(2))
      show "minDistance st = Some (drift_distance x z ((ds @ [d]) ! i))"
        using i(1,3) by (simp add: nth_append)
      show "drift_distance x z ((ds @ [d]) ! i) < 2" using i(1,4) by (simp add: nth_append)
      show "\<forall>j<length (ds @ [d]). drift_distance x z ((ds @ [d]) ! i) \<le> drift_distance x z ((ds @ [d]) ! j)"
        using i(1,5) c by (auto simp: nth_append less_Suc_eq)
      show "\<forall>j<i. drift_distance x z ((ds @ [d]) ! i) < drift_distance x z ((ds @ [d]) ! j)"
        using i(1,6) by (auto simp: nth_append)
    qed
    then show ?thesis using True st' by (simp add: scan_inv_def)
  qed
qed

lemma scan_drifts_inv: "scan_inv x z ds (scan_drifts x z ds)"
proof (induction ds rule: rev_induct)
  case Nil
  show ?case by (simp add: scan_drifts_def scan_init_def scan_inv_def)
next
  case (snoc d ds)
  then show ?case by (simp add: scan_drifts_snoc scan_inv_step)
qed

text \<open>The drift the scan refers to after the loop, if \<^verbatim>\<open>foundExisting && nearestDrift\<close>.\<close>

lemma scan_nearest:
  assumes "i < length ds" and "drift_distance x z (ds ! i) < 2"
    and "\<forall>j<length ds. drift_distance x z (ds ! i) \<le> drift_distance x z (ds ! j)"
    and "\<forall>j<i. drift_distance x z (ds ! i) < drift_distance x z (ds ! j)"
  shows "foundExisting (scan_drifts x z ds) \<and> nearestDrift (scan_drifts x z ds) = Some i"
proof -
  let ?st = "scan_drifts x z ds"
  have inv: "scan_inv x z ds ?st" by (rule scan_drifts_inv)
  have f: "foundExisting ?st"
  proof (rule ccontr)
    assume "\<not> foundExisting ?st"
    with inv have "\<forall>j<length ds. \<not> drift_distance x z (ds ! j) < 2" by (simp add: scan_inv_def)
    with assms(1,2) show False by blast
  qed
  with inv obtain i' where i': "i' < length ds" "nearestDrift ?st = Some i'"
    "\<forall>j<length ds. drift_distance x z (ds ! i') \<le> drift_distance x z (ds ! j)"
    "\<forall>j<i'. drift_distance x z (ds ! i') < drift_distance x z (ds ! j)"
    by (auto simp: scan_inv_def)
  have "i' = i"
  proof (rule ccontr)
    assume "i' \<noteq> i"
    then consider "i' < i" | "i < i'" by linarith
    then show False
    proof cases
      case 1
      with assms(4) have "drift_distance x z (ds ! i) < drift_distance x z (ds ! i')" by blast
      moreover from i'(3) assms(1) have "drift_distance x z (ds ! i') \<le> drift_distance x z (ds ! i)" by blast
      ultimately show False by simp
    next
      case 2
      with i'(4) have "drift_distance x z (ds ! i') < drift_distance x z (ds ! i)" by blast
      moreover from assms(3) i'(1) have "drift_distance x z (ds ! i) \<le> drift_distance x z (ds ! i')" by blast
      ultimately show False by simp
    qed
  qed
  with f i'(2) show ?thesis by simp
qed

lemma scan_none:
  assumes "\<forall>j<length ds. \<not> drift_distance x z (ds ! j) < 2"
  shows "\<not> foundExisting (scan_drifts x z ds)"
proof
  assume "foundExisting (scan_drifts x z ds)"
  with scan_drifts_inv[of x z ds] obtain i where "i < length ds" "drift_distance x z (ds ! i) < 2"
    by (auto simp: scan_inv_def)
  with assms show False by blast
qed

lemma scan_found:
  assumes "foundExisting (scan_drifts x z ds)"
  shows "\<exists>i<length ds. nearestDrift (scan_drifts x z ds) = Some i
           \<and> drift_distance x z (ds ! i) < 2
           \<and> (\<forall>j<length ds. drift_distance x z (ds ! i) \<le> drift_distance x z (ds ! j))"
  using assms scan_drifts_inv[of x z ds] by (auto simp: scan_inv_def)

text \<open>The two branches of \<^verbatim>\<open>addToSnowCover\<close> after the scan.\<close>

lemma addToSnowCover_found:
  assumes "foundExisting (scan_drifts x z ds)" and "nearestDrift (scan_drifts x z ds) = Some i"
  shows "addToSnowCover rnd x z (ds, k) = (ds[i := grow_drift (ds ! i)], k)"
  using assms by (simp add: addToSnowCover_def Let_def)

lemma addToSnowCover_not_found:
  assumes "\<not> foundExisting (scan_drifts x z ds)"
  shows "addToSnowCover rnd x z (ds, k) =
           (if rnd k < 0.05 then
              (ds @ [new_drift 0.5 (0.2 + rnd (k + 1) * 0.2) 8 x z (rnd (k + 2) * pi)
                       (0.0001 + rnd (k + 3) * 0.0001)], k + 4)
            else (ds, k + 1))"
  using assms by (simp add: addToSnowCover_def Let_def)

text \<open>Claim C8: \<^verbatim>\<open>addToSnowCover(x, z)\<close> on the drifts \<open>ds\<close>. If drift \<open>i\<close> lies within distance 2
  of \<open>(x, z)\<close> and is the nearest drift (the first one, among equally near ones), then it is the
  only drift touched: if its \<^verbatim>\<open>scale.y\<close> is below its \<open>maxHeight\<close>, \<^verbatim>\<open>scale.y\<close> grows by
  \<open>growthRate\<close>, \<^verbatim>\<open>scale.x\<close> and \<^verbatim>\<open>scale.z\<close> by \<open>growthRate * 0.5\<close>, and \<^verbatim>\<open>position.y\<close> becomes
  the cone height times the new \<^verbatim>\<open>scale.y\<close>, halved; otherwise nothing changes. If no drift
  lies within distance 2, then a draw below 0.05 appends one new drift at \<open>(x, z)\<close> with a drawn
  height and rotation and its own \<open>maxHeight\<close> and \<open>growthRate\<close>, and any other draw changes
  nothing.\<close>

theorem addToSnowCover_recordImpact:
  "(i < length ds \<and> drift_distance x z (ds ! i) < 2
      \<and> (\<forall>j<length ds. drift_distance x z (ds ! i) \<le> drift_distance x z (ds ! j))
      \<and> (\<forall>j<i. drift_distance x z (ds ! i) < drift_distance x z (ds ! j))
    \<longrightarrow> addToSnowCover rnd x z (ds, k) =
          (ds[i := (if scale_y (ds ! i) < maxHeight (ds ! i)
                    then (ds ! i)\<lparr>scale_y := scale_y (ds ! i) + growthRate (ds ! i),
                                  scale_x := scale_x (ds ! i) + growthRate (ds ! i) * 0.5,
                                  scale_z := scale_z (ds ! i) + growthRate (ds ! i) * 0.5,
                                  position_y := geometry_height (ds ! i)
                                                 * (scale_y (ds ! i) + growthRate (ds ! i)) / 2\<rparr>
                    else ds ! i)], k))
   \<and> ((\<forall>j<length ds. \<not> drift_distance x z (ds ! j) < 2) \<and> rnd k < 0.05
    \<longrightarrow> (\<exists>d. addToSnowCover rnd x z (ds, k) = (ds @ [d], k + 4)
             \<and> position_x d = x \<and> position_z d = z
             \<and> geometry_height d = 0.2 + rnd (k + 1) * 0.2
             \<and> geometry_radius d = 0.5 \<and> geometry_segments d = 8
             \<and> position_y d = geometry_height d / 2
             \<and> scale_x d = 1 \<and> scale_y d = 1 \<and> scale_z d = 1
             \<and> rotation_y d = rnd (k + 2) * pi
             \<and> maxHeight d = geometry_height d * 2
             \<and> growthRate d = 0.0001 + rnd (k + 3) * 0.0001))
   \<and> ((\<forall>j<length ds. \<not> drift_distance x z (ds ! j) < 2) \<and> \<not> rnd k < 0.05
    \<longrightarrow> addToSnowCover rnd x z (ds, k) = (ds, k + 1))"
proof (intro conjI impI)
  assume a: "i < length ds \<and> drift_distance x z (ds ! i) < 2
      \<and> (\<forall>j<length ds. drift_distance x z (ds ! i) \<le> drift_distance x z (ds ! j))
      \<and> (\<forall>j<i. drift_distance x z (ds ! i) < drift_distance x z (ds ! j))"
  then have "foundExisting (scan_drifts x z ds) \<and> nearestDrift (scan_drifts x z ds) = Some i"
    using scan_nearest[of i ds x z] by blast
  then have "addToSnowCover rnd x z (ds, k) = (ds[i := grow_drift (ds ! i)], k)"
    by (simp add: addToSnowCover_found)
  then show "addToSnowCover rnd x z (ds, k) =
          (ds[i := (if scale_y (ds ! i) < maxHeight (ds ! i)
                    then (ds ! i)\<lparr>scale_y := scale_y (ds ! i) + growthRate (ds ! i),
                                  scale_x := scale_x (ds ! i) + growthRate (ds ! i) * 0.5,
                                  scale_z := scale_z (ds ! i) + growthRate (ds ! i) * 0.5,
                                  position_y := geometry_height (ds ! i)
                                                 * (scale_y (ds ! i) + growthRate (ds ! i)) / 2\<rparr>
                    else ds ! i)], k)"
    by (simp add: grow_drift_def)
next
  assume a: "(\<forall>j<length ds. \<not> drift_distance x z (ds ! j) < 2) \<and> rnd k < 0.05"
  then have "\<not> foundExisting (scan_drifts x z ds)" using scan_none by blast
  with a have "addToSnowCover rnd x z (ds, k) =
     (ds @ [new_drift 0.5 (0.2 + rnd (k + 1) * 0.2) 8 x z (rnd (k + 2) * pi)
                       (0.0001 + rnd (k + 3) * 0.0001)], k + 4)"
    by (simp add: addToSnowCover_not_found)
  then show "\<exists>d. addToSnowCover rnd x z (ds, k) = (ds @ [d], k + 4)
             \<and> position_x d = x \<and> position_z d = z
             \<and> geometry_height d = 0.2 + rnd (k + 1) * 0.2
             \<and> geometry_radius d = 0.5 \<and> geometry_segments d = 8
             \<and> position_y d = geometry_height d / 2
             \<and> scale_x d = 1 \<and> scale_y d = 1 \<and> scale_z d = 1
             \<and> rotation_y d = rnd (k + 2) * pi
             \<and> maxHeight d = geometry_height d * 2
             \<and> growthRate d = 0.0001 + rnd (k + 3) * 0.0001"
    by (simp add: new_drift_def)
next
  assume a: "(\<forall>j<length ds. \<not> drift_distance x z (ds ! j) < 2) \<and> \<not> rnd k < 0.05"
  then have "\<not> foundExisting (scan_drifts x z ds)" using scan_none by blast
  with a show "addToSnowCover rnd x z (ds, k) = (ds, k + 1)"
    by (simp add: addToSnowCover_not_found)
qed

lemma far_near_distance:
  "drift_distance 0 0 far_drift = 5" "drift_distance 0 0 near_drift = 0"
  by (simp_all add: drift_distance_def far_drift_def near_drift_def new_drift_def)

theorem addToSnowCover_recordImpact_witness:
  "drift_distance 0 0 ([far_drift, near_drift] ! 1) < 2
   \<and> drift_distance 0 0 ([far_drift, near_drift] ! 1) < drift_distance 0 0 ([far_drift, near_drift] ! 0)
   \<and> addToSnowCover (\<lambda>n. 0) 0 0 ([far_drift, near_drift], 0)
       = ([far_drift, near_drift\<lparr>scale_y := 9/8, scale_x := 17/16, scale_z := 17/16,
                                   position_y := 9/32\<rparr>], 0)
   \<and> addToSnowCover (\<lambda>n. 0) 10 10 ([], 0)
       = ([new_drift 0.5 0.2 8 10 10 0 0.0001], 4)
   \<and> (1/2 :: real) \<ge> 0.05
   \<and> addToSnowCover (\<lambda>n. 1/2) 10 10 ([], 0) = ([], 1)"
proof -
  have a: "addToSnowCover (\<lambda>n. 0) 0 0 ([far_drift, near_drift], 0)
       = ([far_drift, near_drift\<lparr>scale_y := 9/8, scale_x := 17/16, scale_z := 17/16,
                                   position_y := 9/32\<rparr>], 0)"
    using addToSnowCover_recordImpact[of 1 "[far_drift, near_drift]" 0 0 "\<lambda>n. 0" 0]
    by (simp add: far_near_distance All_less_Suc) (simp add: near_drift_def new_drift_def)
  have b: "addToSnowCover (\<lambda>n. 0) 10 10 ([], 0) = ([new_drift 0.5 0.2 8 10 10 0 0.0001], 4)"
    using addToSnowCover_recordImpact[of 0 "[]" 10 10 "\<lambda>n. 0" 0]
    by (simp add: addToSnowCover_def scan_drifts_def scan_init_def)
  have c: "addToSnowCover (\<lambda>n. 1/2) 10 10 ([], 0) = ([], 1)"
    using addToSnowCover_recordImpact[of 0 "[]" 10 10 "\<lambda>n. 1/2" 0]
    by simp
  show ?thesis using a b c by (simp add: far_near_distance)
qed

lemma grow_drift_fields:
  "grow_drift d = d\<lparr>scale_x := scale_x (grow_drift d), scale_y := scale_y (grow_drift d),
                      scale_z := scale_z (grow_drift d), position_y := position_y (grow_drift d)\<rparr>"
  by (simp add: grow_drift_def)

text \<open>Claim C10: one call of \<^verbatim>\<open>addToSnowCover(x, z)\<close> keeps the collection or appends exactly
  one drift to it, and there is one index \<open>i\<close> such that every other existing drift is
  unchanged; if \<open>i\<close> is an existing drift, it lies within distance 2 of \<open>(x, z)\<close>, no drift is
  nearer, and only its scale and its \<^verbatim>\<open>position.y\<close> can have changed.\<close>

theorem addToSnowCover_frame:
  "\<exists>i. (length (fst (addToSnowCover rnd x z (ds, k))) = length ds
          \<or> (\<exists>d. fst (addToSnowCover rnd x z (ds, k)) = ds @ [d]))
      \<and> (\<forall>j<length ds. j \<noteq> i \<longrightarrow> fst (addToSnowCover rnd x z (ds, k)) ! j = ds ! j)
      \<and> (i < length ds \<longrightarrow>
            drift_distance x z (ds ! i) < 2
          \<and> (\<forall>j<length ds. drift_distance x z (ds ! i) \<le> drift_distance x z (ds ! j))
          \<and> fst (addToSnowCover rnd x z (ds, k)) ! i =
              (ds ! i)\<lparr>scale_x := scale_x (fst (addToSnowCover rnd x z (ds, k)) ! i),
                        scale_y := scale_y (fst (addToSnowCover rnd x z (ds, k)) ! i),
                        scale_z := scale_z (fst (addToSnowCover rnd x z (ds, k)) ! i),
                        position_y := position_y (fst (addToSnowCover rnd x z (ds, k)) ! i)\<rparr>)"
proof (cases "foundExisting (scan_drifts x z ds)")
  case True
  from scan_found[OF True] obtain i where i: "i < length ds"
    "nearestDrift (scan_drifts x z ds) = Some i" "drift_distance x z (ds ! i) < 2"
    "\<forall>j<length ds. drift_distance x z (ds ! i) \<le> drift_distance x z (ds ! j)"
    by blast
  have r: "fst (addToSnowCover rnd x z (ds, k)) = ds[i := grow_drift (ds ! i)]"
    using addToSnowCover_found[OF True i(2)] by simp
  have "fst (addToSnowCover rnd x z (ds, k)) ! i = grow_drift (ds ! i)"
    using r i(1) by simp
  then have f: "fst (addToSnowCover rnd x z (ds, k)) ! i =
              (ds ! i)\<lparr>scale_x := scale_x (fst (addToSnowCover rnd x z (ds, k)) ! i),
                        scale_y := scale_y (fst (addToSnowCover rnd x z (ds, k)) ! i),
                        scale_z := scale_z (fst (addToSnowCover rnd x z (ds, k)) ! i),
                        position_y := position_y (fst (addToSnowCover rnd x z (ds, k)) ! i)\<rparr>"
    using grow_drift_fields[of "ds ! i"] by simp
  have l: "length (fst (addToSnowCover rnd x z (ds, k))) = length ds" using r by simp
  have o: "\<forall>j<length ds. j \<noteq> i \<longrightarrow> fst (addToSnowCover rnd x z (ds, k)) ! j = ds ! j"
    using r by simp
  show ?thesis using l o i(3,4) f by blast
next
  case False
  have "fst (addToSnowCover rnd x z (ds, k)) = ds
        \<or> (\<exists>d. fst (addToSnowCover rnd x z (ds, k)) = ds @ [d])"
    using addToSnowCover_not_found[OF False, of rnd k] by (simp split: if_splits)
  then have "(length (fst (addToSnowCover rnd x z (ds, k))) = length ds
          \<or> (\<exists>d. fst (addToSnowCover rnd x z (ds, k)) = ds @ [d]))
      \<and> (\<forall>j<length ds. j \<noteq> length ds \<longrightarrow> fst (addToSnowCover rnd x z (ds, k)) ! j = ds ! j)"
    by (auto simp: nth_append)
  then show ?thesis by (intro exI[of _ "length ds"]) simp
qed

theorem addToSnowCover_frame_witness:
  "length (fst (addToSnowCover (\<lambda>n. 0) 0 0 ([far_drift, near_drift], 0))) = 2
   \<and> fst (addToSnowCover (\<lambda>n. 0) 0 0 ([far_drift, near_drift], 0)) ! 0 = far_drift
   \<and> fst (addToSnowCover (\<lambda>n. 0) 0 0 ([far_drift, near_drift], 0)) ! 1
       = near_drift\<lparr>scale_x := 17/16, scale_y := 9/8, scale_z := 17/16, position_y := 9/32\<rparr>
   \<and> drift_distance 0 0 near_drift < 2
   \<and> drift_distance 0 0 near_drift \<le> drift_distance 0 0 far_drift"
proof -
  let ?r = "fst (addToSnowCover (\<lambda>n. 0) 0 0 ([far_drift, near_drift], 0))"
  from addToSnowCover_frame[of "\<lambda>n. 0" 0 0 "[far_drift, near_drift]" 0]
  obtain i where i: "length ?r = length [far_drift, near_drift] \<or> (\<exists>d. ?r = [far_drift, near_drift] @ [d])"
    "\<forall>j<length [far_drift, near_drift]. j \<noteq> i \<longrightarrow> ?r ! j = [far_drift, near_drift] ! j"
    "i < length [far_drift, near_drift] \<longrightarrow> drift_distance 0 0 ([far_drift, near_drift] ! i) < 2"
    by blast
  have "i \<noteq> 0"
  proof
    assume "i = 0"
    with i(3) have "drift_distance 0 0 far_drift < 2" by simp
    then show False by (simp add: far_near_distance)
  qed
  with i(2) have z: "?r ! 0 = far_drift" by simp
  have e: "?r = [far_drift, near_drift\<lparr>scale_x := 17/16, scale_y := 9/8, scale_z := 17/16,
                                         position_y := 9/32\<rparr>]"
    by (simp add: addToSnowCover_def scan_drifts_def scan_init_def scan_step_def
        far_near_distance grow_drift_def)
       (simp add: near_drift_def new_drift_def)
  show ?thesis using z e by (simp add: far_near_distance)
qed

text \<open>Drifts as the code creates them: the scale is 1 and \<open>maxHeight\<close> is twice a cone height
  below 0.4.\<close>

lemma createInitialSnowDrifts_above_maxHeight:
  assumes "\<forall>n. 0 \<le> rnd n \<and> rnd n < 1"
  shows "\<forall>d\<in>set (createInitialSnowDrifts rnd k n). scale_y d = 1 \<and> maxHeight d < 1"
proof (induction n arbitrary: k)
  case 0
  show ?case by simp
next
  case (Suc n)
  have "rnd (k + 1) < 1" using assms by blast
  then have "maxHeight (new_drift (rnd k * 2 + 1) (rnd (k + 1) * 0.3 + 0.1)
        (nat \<lfloor>rnd (k + 2) * 6\<rfloor> + 6) ((rnd (k + 3) - 0.5) * 80) ((rnd (k + 4) - 0.5) * 80)
        (rnd (k + 5) * pi) (0.0001 + rnd (k + 6) * 0.0001)) < 1"
    by (simp add: new_drift_def)
  moreover have "\<forall>d\<in>set (createInitialSnowDrifts rnd (k + 7) n). scale_y d = 1 \<and> maxHeight d < 1"
    by (rule Suc.IH)
  ultimately show ?case by (simp add: new_drift_def)
qed

lemma spawned_drift_above_maxHeight:
  assumes "\<forall>n. 0 \<le> rnd n \<and> rnd n < 1"
    and "addToSnowCover rnd x z (ds, k) = (ds @ [d], k')"
  shows "scale_y d = 1 \<and> maxHeight d < 1"
proof (cases "foundExisting (scan_drifts x z ds)")
  case True
  from scan_found[OF True] obtain i where "nearestDrift (scan_drifts x z ds) = Some i" by blast
  from addToSnowCover_found[OF True this, of rnd k] assms(2)
  have "length (ds @ [d]) = length (ds[i := grow_drift (ds ! i)])" by simp
  then show ?thesis by simp
next
  case False
  have "rnd (k + 1) < 1" using assms(1) by blast
  then show ?thesis
    using addToSnowCover_not_found[OF False, of rnd k] assms(2)
    by (auto simp: new_drift_def split: if_splits)
qed

text \<open>A drift that is not below its \<open>maxHeight\<close> is never changed.\<close>

lemma grow_drift_at_cap: "maxHeight d \<le> scale_y d \<Longrightarrow> grow_drift d = d"
  by (simp add: grow_drift_def)

text \<open>Claim C1 (the \<^verbatim>\<open>scale.y\<close> of a drift never exceeds its \<open>maxHeight\<close>) on a run of the
  code: an impact at the origin on the empty scene, with every draw 1/128, creates a drift
  with \<^verbatim>\<open>scale.y\<close> 1 and \<open>maxHeight\<close> 129/320; a second impact at the same place and a
  background tick leave it so.\<close>

theorem spawned_drift_exceeds_maxHeight:
  "map (\<lambda>d. (scale_y d, maxHeight d))
       (snowAccumulationGroup (fst (snow_run (\<lambda>n. 1/128) [Impact 0 0] (empty_scene, 0))))
     = [(1, 129/320)]
   \<and> map (\<lambda>d. (scale_y d, maxHeight d))
       (snowAccumulationGroup (fst (snow_run (\<lambda>n. 1/128) [Impact 0 0, Impact 0 0, Tick] (empty_scene, 0))))
     = [(1, 129/320)]"
  by (simp add: empty_scene_def addToSnowCover_def scan_drifts_def scan_init_def scan_step_def
      drift_distance_def new_drift_def grow_drift_def updateSnow_def Let_def)

section \<open>Snow accumulation: runs of impacts and background ticks\<close>

lemma drift_grown_refl: "drift_grown d d"
  by (simp add: drift_grown_def)

lemma drift_grown_trans: "drift_grown a b \<Longrightarrow> drift_grown b c \<Longrightarrow> drift_grown a c"
  by (auto simp: drift_grown_def)

lemma grow_drift_grown: "0 \<le> growthRate d \<Longrightarrow> drift_grown d (grow_drift d)"
  by (simp add: drift_grown_def grow_drift_def)

lemma drifts_grown_refl: "drifts_grown ds ds"
  by (simp add: drifts_grown_def drift_grown_refl)

lemma drifts_grown_trans:
  "drifts_grown a b \<Longrightarrow> drifts_grown b c \<Longrightarrow> drifts_grown a c"
  unfolding drifts_grown_def
  by (meson drift_grown_trans le_trans less_le_trans)

lemma drifts_grown_Cons:
  "drift_grown d d' \<Longrightarrow> drifts_grown ds ds' \<Longrightarrow> drifts_grown (d # ds) (d' # ds')"
  by (auto simp: drifts_grown_def nth_Cons split: nat.splits)

lemma addToSnowCover_grown:
  assumes "rates_ok ds" and "\<forall>n. 0 \<le> rnd n"
  shows "drifts_grown ds (fst (addToSnowCover rnd x z (ds, k)))
         \<and> rates_ok (fst (addToSnowCover rnd x z (ds, k)))"
proof (cases "foundExisting (scan_drifts x z ds)")
  case True
  from scan_found[OF True] obtain i where i: "i < length ds"
    "nearestDrift (scan_drifts x z ds) = Some i" by blast
  have r: "fst (addToSnowCover rnd x z (ds, k)) = ds[i := grow_drift (ds ! i)]"
    using addToSnowCover_found[OF True i(2)] by simp
  have g: "0 \<le> growthRate (ds ! i)" using assms(1) i(1) by (simp add: rates_ok_def)
  have "drifts_grown ds (ds[i := grow_drift (ds ! i)])"
    using grow_drift_grown[OF g] i(1)
    by (auto simp: drifts_grown_def nth_list_update drift_grown_refl)
  moreover have "rates_ok (ds[i := grow_drift (ds ! i)])"
  proof -
    have "growthRate (grow_drift (ds ! i)) = growthRate (ds ! i)" by (simp add: grow_drift_def)
    with g assms(1) show ?thesis
      unfolding rates_ok_def using set_update_subset_insert[of ds i "grow_drift (ds ! i)"]
      by auto
  qed
  ultimately show ?thesis using r by simp
next
  case False
  have p: "0 \<le> rnd (k + 3)" using assms(2) by blast
  show ?thesis
  proof (cases "rnd k < 0.05")
    case True
    with addToSnowCover_not_found[OF False, of rnd k]
    have r: "fst (addToSnowCover rnd x z (ds, k)) =
               ds @ [new_drift 0.5 (0.2 + rnd (k + 1) * 0.2) 8 x z (rnd (k + 2) * pi)
                       (0.0001 + rnd (k + 3) * 0.0001)]" by simp
    show ?thesis unfolding r using assms(1) p
      by (auto simp: drifts_grown_def rates_ok_def nth_append drift_grown_refl new_drift_def)
  next
    case c: False
    with addToSnowCover_not_found[OF False, of rnd k]
    have r: "fst (addToSnowCover rnd x z (ds, k)) = ds" by simp
    show ?thesis unfolding r using assms(1) by (simp add: drifts_grown_refl)
  qed
qed

lemma settle_drifts_grown:
  "rates_ok ds \<Longrightarrow> drifts_grown ds (settle_drifts rnd k ds) \<and> rates_ok (settle_drifts rnd k ds)"
proof (induction ds arbitrary: k)
  case Nil
  show ?case by (simp add: drifts_grown_def rates_ok_def)
next
  case (Cons d ds)
  from Cons.prems have d: "0 \<le> growthRate d" and ds: "rates_ok ds" by (simp_all add: rates_ok_def)
  from Cons.IH[OF ds, of "k + 1"]
  have ih: "drifts_grown ds (settle_drifts rnd (k + 1) ds)" "rates_ok (settle_drifts rnd (k + 1) ds)"
    by simp_all
  have g: "drift_grown d (if rnd k < 0.01 then grow_drift d else d)"
    using d by (simp add: grow_drift_grown drift_grown_refl)
  have "growthRate (if rnd k < 0.01 then grow_drift d else d) = growthRate d"
    by (simp add: grow_drift_def)
  with d ih(2) have "rates_ok (settle_drifts rnd k (d # ds))" by (simp add: rates_ok_def)
  moreover have "drifts_grown (d # ds) (settle_drifts rnd k (d # ds))"
    using drifts_grown_Cons[OF g ih(1)] by simp
  ultimately show ?case by simp
qed

lemma land_particles_grown:
  assumes "\<forall>n. 0 \<le> rnd n"
  shows "rates_ok (fst s) \<Longrightarrow>
         drifts_grown (fst s) (fst (snd (land_particles rnd ps s)))
         \<and> rates_ok (fst (snd (land_particles rnd ps s)))"
proof (induction ps arbitrary: s)
  case Nil
  then show ?case by (simp add: drifts_grown_refl)
next
  case (Cons p ps)
  show ?case
  proof (cases "pos_y p \<le> 0")
    case True
    let ?s' = "addToSnowCover rnd (pos_x p) (pos_z p) s"
    have a: "drifts_grown (fst s) (fst ?s')" "rates_ok (fst ?s')"
      using addToSnowCover_grown[OF Cons.prems assms, of "pos_x p" "pos_z p" "snd s"] by simp_all
    have e: "fst (snd (land_particles rnd (p # ps) s))
             = fst (snd (land_particles rnd ps (fst ?s', snd ?s' + 5)))"
      using True by (simp add: Let_def)
    from Cons.IH[of "(fst ?s', snd ?s' + 5)"] a(2)
    have "drifts_grown (fst ?s') (fst (snd (land_particles rnd ps (fst ?s', snd ?s' + 5))))
          \<and> rates_ok (fst (snd (land_particles rnd ps (fst ?s', snd ?s' + 5))))" by simp
    with a(1) e show ?thesis using drifts_grown_trans by metis
  next
    case False
    then have e: "fst (snd (land_particles rnd (p # ps) s)) = fst (snd (land_particles rnd ps s))"
      by (simp add: Let_def)
    show ?thesis unfolding e using Cons.IH[OF Cons.prems] .
  qed
qed

lemma updateSnow_grown:
  assumes "\<forall>n. 0 \<le> rnd n" and "rates_ok (snowAccumulationGroup (fst s))"
  shows "drifts_grown (snowAccumulationGroup (fst s)) (snowAccumulationGroup (fst (updateSnow rnd s)))
         \<and> rates_ok (snowAccumulationGroup (fst (updateSnow rnd s)))"
proof -
  let ?ds = "snowAccumulationGroup (fst s)"
  let ?k = "snd s"
  have st: "drifts_grown ?ds (settle_drifts rnd ?k ?ds)" "rates_ok (settle_drifts rnd ?k ?ds)"
    using settle_drifts_grown[OF assms(2)] by simp_all
  show ?thesis
  proof (cases "snow (fst s)")
    case None
    then show ?thesis using st by (simp add: updateSnow_def Let_def)
  next
    case (Some ps)
    let ?r = "land_particles rnd ps (settle_drifts rnd ?k ?ds, ?k + length ?ds)"
    have e: "snowAccumulationGroup (fst (updateSnow rnd s)) = fst (snd ?r)"
      using Some by (simp add: updateSnow_def Let_def)
    have "drifts_grown (settle_drifts rnd ?k ?ds) (fst (snd ?r)) \<and> rates_ok (fst (snd ?r))"
      using land_particles_grown[OF assms(1), of "(settle_drifts rnd ?k ?ds, ?k + length ?ds)" ps] st(2)
      by simp
    with st(1) e show ?thesis using drifts_grown_trans by metis
  qed
qed

lemma snow_step_grown:
  assumes "\<forall>n. 0 \<le> rnd n" and "rates_ok (snowAccumulationGroup (fst s))"
  shows "drifts_grown (snowAccumulationGroup (fst s)) (snowAccumulationGroup (fst (snow_step rnd e s)))
         \<and> rates_ok (snowAccumulationGroup (fst (snow_step rnd e s)))"
proof (cases e)
  case (Impact x z)
  then show ?thesis
    using addToSnowCover_grown[OF assms(2,1), of x z "snd s"] by (simp add: Let_def)
next
  case Tick
  then show ?thesis using updateSnow_grown[OF assms] by simp
qed

lemma snow_run_grown:
  assumes "\<forall>n. 0 \<le> rnd n"
  shows "rates_ok (snowAccumulationGroup (fst s)) \<Longrightarrow>
         drifts_grown (snowAccumulationGroup (fst s)) (snowAccumulationGroup (fst (snow_run rnd es s)))"
proof (induction es arbitrary: s)
  case Nil
  show ?case by (simp add: drifts_grown_refl)
next
  case (Cons e es)
  from snow_step_grown[OF assms Cons.prems, of e]
  have a: "drifts_grown (snowAccumulationGroup (fst s)) (snowAccumulationGroup (fst (snow_step rnd e s)))"
    and b: "rates_ok (snowAccumulationGroup (fst (snow_step rnd e s)))" by simp_all
  have "drifts_grown (snowAccumulationGroup (fst (snow_step rnd e s)))
          (snowAccumulationGroup (fst (snow_run rnd es (snow_step rnd e s))))"
    by (rule Cons.IH[OF b])
  with a have "drifts_grown (snowAccumulationGroup (fst s))
          (snowAccumulationGroup (fst (snow_run rnd es (snow_step rnd e s))))"
    by (rule drifts_grown_trans)
  then show ?case by simp
qed

text \<open>Across any run of impacts and background ticks no drift is removed, the
  \<^verbatim>\<open>scale.y\<close> of every drift never decreases, and it stays below the larger of its starting
  value and \<open>maxHeight + growthRate\<close>.\<close>

lemma snow_run_scale_y:
  assumes "\<forall>n. 0 \<le> rnd n" and "\<forall>d\<in>set (snowAccumulationGroup sc). 0 \<le> growthRate d"
    and "i < length (snowAccumulationGroup sc)"
  shows "i < length (snowAccumulationGroup (fst (snow_run rnd es (sc, k))))
     \<and> scale_y (snowAccumulationGroup sc ! i)
         \<le> scale_y (snowAccumulationGroup (fst (snow_run rnd es (sc, k))) ! i)
     \<and> scale_y (snowAccumulationGroup (fst (snow_run rnd es (sc, k))) ! i)
         \<le> max (scale_y (snowAccumulationGroup sc ! i))
               (maxHeight (snowAccumulationGroup sc ! i) + growthRate (snowAccumulationGroup sc ! i))"
  using snow_run_grown[OF assms(1), of "(sc, k)" es] assms(2,3)
  by (simp add: rates_ok_def drifts_grown_def drift_grown_def)

section \<open>Path followers: index and translation\<close>







text \<open>One tick of a character whose index is inside its path.\<close>

lemma follow_Inr:
  assumes "pathIndex e < length (path e)"
  shows "follow freq amp time e =
           Inr (if arrived (moved freq amp time e)
                then (moved freq amp time e)\<lparr>pathIndex := (pathIndex e + 1) mod length (path e)\<rparr>
                else moved freq amp time e)"
  using assms by (simp add: follow_def Let_def)

lemma moved_fields:
  "path (moved freq amp time e) = path e"
  "pathIndex (moved freq amp time e) = pathIndex e"
  "moveSpeed (moved freq amp time e) = moveSpeed e"
  "lookAt (moved freq amp time e) = Some (nextPoint e)"
  "nextPoint (moved freq amp time e) = nextPoint e"
  "position (moved freq amp time e) =
     vec_add (position e)
       (multiplyScalar (normalize (vec_sub (nextPoint e) (path e ! pathIndex e))) (moveSpeed e))"
  by (simp_all add: moved_def nextPoint_def Let_def)

lemma follow_ticks_pathIndex:
  "pathIndex e < length (path e) \<Longrightarrow>
     \<exists>e'. follow_ticks freq amp ts e = Inr e' \<and> path e' = path e
          \<and> pathIndex e' < length (path e)
          \<and> pathIndex e' = (pathIndex e + arrivals freq amp ts e) mod length (path e)"
proof (induction ts arbitrary: e)
  case Nil
  then show ?case by simp
next
  case (Cons t ts)
  let ?m = "moved freq amp t e"
  let ?L = "length (path e)"
  let ?e1 = "if arrived ?m then ?m\<lparr>pathIndex := (pathIndex e + 1) mod ?L\<rparr> else ?m"
  have f: "follow freq amp t e = Inr ?e1" by (rule follow_Inr[OF Cons.prems])
  have L: "0 < ?L" using Cons.prems by (cases "path e") simp_all
  have p1: "path ?e1 = path e" by (simp add: moved_fields)
  have i1: "pathIndex ?e1 = (pathIndex e + (if arrived ?m then 1 else 0)) mod ?L"
    using Cons.prems by (simp add: moved_fields)
  have lt: "pathIndex ?e1 < length (path ?e1)" unfolding p1 i1 using L by simp
  from Cons.IH[OF lt] obtain e' where e': "follow_ticks freq amp ts ?e1 = Inr e'"
    "path e' = path ?e1" "pathIndex e' < length (path ?e1)"
    "pathIndex e' = (pathIndex ?e1 + arrivals freq amp ts ?e1) mod length (path ?e1)"
    by blast
  have a: "arrivals freq amp (t # ts) e = (if arrived ?m then 1 else 0) + arrivals freq amp ts ?e1"
    using f by simp
  have "pathIndex e' = (pathIndex e + arrivals freq amp (t # ts) e) mod ?L"
    unfolding a e'(4) p1 i1 by (simp add: mod_add_left_eq add.assoc)
  moreover have "follow_ticks freq amp (t # ts) e = Inr e'" using f e'(1) by simp
  ultimately show ?case using e'(2,3) p1 by simp
qed

text \<open>Claim C4: for a path follower whose \<^verbatim>\<open>pathIndex\<close> is a valid index of its path of length
  \<open>L\<close>, a tick succeeds, keeps the path, and leaves \<^verbatim>\<open>pathIndex\<close> a valid index: it becomes
  \<open>(pathIndex + 1) mod L\<close> exactly when the distance from the moved character to the upcoming
  waypoint is below 0.1, and is unchanged otherwise. Over any number of ticks the index is
  the starting index plus the number of arrivals, modulo \<open>L\<close>; so from index 0, after \<open>L\<close>
  arrivals the index is 0 again.\<close>

theorem follow_pathIndex:
  assumes "pathIndex e < length (path e)"
  shows "(\<exists>e'. follow freq amp time e = Inr e' \<and> path e' = path e
            \<and> pathIndex e' < length (path e)
            \<and> pathIndex e' =
                (if distanceTo (position e') (path e ! ((pathIndex e + 1) mod length (path e))) < 0.1
                 then (pathIndex e + 1) mod length (path e) else pathIndex e))
       \<and> (\<exists>e'. follow_ticks freq amp ts e = Inr e' \<and> path e' = path e
            \<and> pathIndex e' < length (path e)
            \<and> pathIndex e' = (pathIndex e + arrivals freq amp ts e) mod length (path e)
            \<and> (pathIndex e = 0 \<and> arrivals freq amp ts e = length (path e) \<longrightarrow> pathIndex e' = 0))"
proof
  let ?m = "moved freq amp time e"
  let ?L = "length (path e)"
  let ?e1 = "if arrived ?m then ?m\<lparr>pathIndex := (pathIndex e + 1) mod ?L\<rparr> else ?m"
  have f: "follow freq amp time e = Inr ?e1" by (rule follow_Inr[OF assms])
  have L: "0 < ?L" using assms by (cases "path e") simp_all
  have a: "arrived ?m \<longleftrightarrow>
           distanceTo (position ?e1) (path e ! ((pathIndex e + 1) mod ?L)) < 0.1"
    by (simp add: arrived_def moved_fields) (simp add: nextPoint_def)
  have "path ?e1 = path e" by (simp add: moved_fields)
  moreover have "pathIndex ?e1 < ?L" using assms L by (simp add: moved_fields)
  moreover have "pathIndex ?e1 =
                (if distanceTo (position ?e1) (path e ! ((pathIndex e + 1) mod ?L)) < 0.1
                 then (pathIndex e + 1) mod ?L else pathIndex e)"
    unfolding a[symmetric] by (simp add: moved_fields)
  ultimately show "\<exists>e'. follow freq amp time e = Inr e' \<and> path e' = path e
            \<and> pathIndex e' < length (path e)
            \<and> pathIndex e' =
                (if distanceTo (position e') (path e ! ((pathIndex e + 1) mod length (path e))) < 0.1
                 then (pathIndex e + 1) mod length (path e) else pathIndex e)"
    using f by blast
next
  from follow_ticks_pathIndex[OF assms, of freq amp ts]
  obtain e' where e': "follow_ticks freq amp ts e = Inr e'" "path e' = path e"
    "pathIndex e' < length (path e)"
    "pathIndex e' = (pathIndex e + arrivals freq amp ts e) mod length (path e)"
    by blast
  have "pathIndex e = 0 \<and> arrivals freq amp ts e = length (path e) \<longrightarrow> pathIndex e' = 0"
    using e'(4) by simp
  with e' show "\<exists>e'. follow_ticks freq amp ts e = Inr e' \<and> path e' = path e
            \<and> pathIndex e' < length (path e)
            \<and> pathIndex e' = (pathIndex e + arrivals freq amp ts e) mod length (path e)
            \<and> (pathIndex e = 0 \<and> arrivals freq amp ts e = length (path e) \<longrightarrow> pathIndex e' = 0)"
    by blast
qed


text \<open>Two ticks of a character on a path of two waypoints 1/16 apart.\<close>

lemma walker_follow:
  "follow 5 (1/2) 0 walker =
     Inr (walker\<lparr>position := \<lparr>vec_x = 1/32, vec_y = 0, vec_z = 0\<rparr>,
                 lookAt := Some \<lparr>vec_x = 1/16, vec_y = 0, vec_z = 0\<rparr>, pathIndex := Suc 0\<rparr>)"
proof -
  have r: "sqrt (1 / 256) = 1 / 16" "sqrt (1 / 1024) = 1 / 32"
    by (simp_all add: real_sqrt_divide)
  show ?thesis
    by (simp add: walker_def follow_def moved_def arrived_def nextPoint_def normalize_def
        vec_length_def vec_sub_def vec_add_def multiplyScalar_def distanceTo_def Let_def r)
qed

lemma walker_follow2:
  "follow 5 (1/2) 0
     (walker\<lparr>position := \<lparr>vec_x = 1/32, vec_y = 0, vec_z = 0\<rparr>,
             lookAt := Some \<lparr>vec_x = 1/16, vec_y = 0, vec_z = 0\<rparr>, pathIndex := Suc 0\<rparr>)
   = Inr (walker\<lparr>position := \<lparr>vec_x = 0, vec_y = 0, vec_z = 0\<rparr>,
                 lookAt := Some \<lparr>vec_x = 0, vec_y = 0, vec_z = 0\<rparr>, pathIndex := 0\<rparr>)"
proof -
  have r: "sqrt (1 / 256) = 1 / 16" by (simp add: real_sqrt_divide)
  show ?thesis
    by (simp add: walker_def follow_def moved_def arrived_def nextPoint_def normalize_def
        vec_length_def vec_sub_def vec_add_def multiplyScalar_def distanceTo_def Let_def r)
qed

lemma walker_arrived:
  "arrived (moved 5 (1/2) 0 walker)"
  "arrived (moved 5 (1/2) 0
     (walker\<lparr>position := \<lparr>vec_x = 1/32, vec_y = 0, vec_z = 0\<rparr>,
             lookAt := Some \<lparr>vec_x = 1/16, vec_y = 0, vec_z = 0\<rparr>, pathIndex := Suc 0\<rparr>))"
proof -
  have r: "sqrt (1 / 256) = 1 / 16" "sqrt (1 / 1024) = 1 / 32"
    by (simp_all add: real_sqrt_divide)
  show "arrived (moved 5 (1/2) 0 walker)"
    by (simp add: walker_def moved_def arrived_def nextPoint_def normalize_def
        vec_length_def vec_sub_def vec_add_def multiplyScalar_def distanceTo_def Let_def r)
  show "arrived (moved 5 (1/2) 0
     (walker\<lparr>position := \<lparr>vec_x = 1/32, vec_y = 0, vec_z = 0\<rparr>,
             lookAt := Some \<lparr>vec_x = 1/16, vec_y = 0, vec_z = 0\<rparr>, pathIndex := Suc 0\<rparr>))"
    by (simp add: walker_def moved_def arrived_def nextPoint_def normalize_def
        vec_length_def vec_sub_def vec_add_def multiplyScalar_def distanceTo_def Let_def r)
qed

theorem follow_pathIndex_witness:
  "pathIndex walker < length (path walker)
   \<and> length (path walker) = 2
   \<and> follow 5 (1/2) 0 walker =
       Inr (walker\<lparr>position := \<lparr>vec_x = 1/32, vec_y = 0, vec_z = 0\<rparr>,
                   lookAt := Some \<lparr>vec_x = 1/16, vec_y = 0, vec_z = 0\<rparr>, pathIndex := Suc 0\<rparr>)
   \<and> arrivals 5 (1/2) [0, 0] walker = 2
   \<and> follow_ticks 5 (1/2) [0, 0] walker =
       Inr (walker\<lparr>position := \<lparr>vec_x = 0, vec_y = 0, vec_z = 0\<rparr>,
                   lookAt := Some \<lparr>vec_x = 0, vec_y = 0, vec_z = 0\<rparr>, pathIndex := 0\<rparr>)"
proof -
  have p: "pathIndex walker < length (path walker)" "length (path walker) = 2"
    by (simp_all add: walker_def)
  have a: "arrivals 5 (1/2) [0, 0] walker = 2"
    by (simp add: walker_follow walker_follow2 walker_arrived)
  have t: "follow_ticks 5 (1/2) [0, 0] walker =
       Inr (walker\<lparr>position := \<lparr>vec_x = 0, vec_y = 0, vec_z = 0\<rparr>,
                   lookAt := Some \<lparr>vec_x = 0, vec_y = 0, vec_z = 0\<rparr>, pathIndex := 0\<rparr>)"
    by (simp add: walker_follow walker_follow2)
  from follow_pathIndex[OF p(1), of 5 "1/2" 0 "[0, 0]"] obtain e' where
    e': "follow_ticks 5 (1/2) [0, 0] walker = Inr e'"
    "pathIndex walker = 0 \<and> arrivals 5 (1/2) [0, 0] walker = length (path walker)
       \<longrightarrow> pathIndex e' = 0"
    by blast
  have "pathIndex walker = 0" by (simp add: walker_def)
  with e'(2) a p(2) have "pathIndex e' = 0" by simp
  then show ?thesis using p a t walker_follow by simp
qed


text \<open>The loop over the elves and the step of Santa are this tick: with valid indices
  \<^verbatim>\<open>animateCharacters\<close> does not throw, and every character is the result of its own tick.\<close>

lemma animate_elves_valid:
  "\<forall>e\<in>set es. pathIndex e < length (path e) \<Longrightarrow>
     \<exists>es'. animate_elves time es = Inr es' \<and> length es' = length es
           \<and> (\<forall>i<length es. follow 5 0.5 time (es ! i) = Inr (es' ! i))"
proof (induction es)
  case Nil
  show ?case by simp
next
  case (Cons e es)
  from Cons.prems have "pathIndex e < length (path e)" by simp
  from follow_Inr[OF this, of 5 "0.5" time] obtain e' where e': "follow 5 0.5 time e = Inr e'" by blast
  from Cons obtain es' where es': "animate_elves time es = Inr es'" "length es' = length es"
    "\<forall>i<length es. follow 5 0.5 time (es ! i) = Inr (es' ! i)" by auto
  have "animate_elves time (e # es) = Inr (e' # es')"
    using e' es'(1) by (simp add: animate_elf_def)
  moreover have "\<forall>i<length (e # es). follow 5 0.5 time ((e # es) ! i) = Inr ((e' # es') ! i)"
    using e' es'(3) by (auto simp: nth_Cons split: nat.splits)
  ultimately show ?case using es'(2) by simp
qed

lemma animateCharacters_valid:
  assumes "\<forall>e\<in>set (elves c). pathIndex e < length (path e)"
    and "\<forall>s. santa c = Some s \<longrightarrow> pathIndex s < length (path s)"
  shows "\<exists>c'. animateCharacters time c = Inr c' \<and> length (elves c') = length (elves c)
           \<and> (\<forall>i<length (elves c). follow 5 0.5 time (elves c ! i) = Inr (elves c' ! i))
           \<and> (case santa c of None \<Rightarrow> santa c' = None
               | Some s \<Rightarrow> \<exists>s'. santa c' = Some s' \<and> follow 4 0.3 time s = Inr s')"
proof -
  from animate_elves_valid[OF assms(1), of time] obtain es' where
    es': "animate_elves time (elves c) = Inr es'" "length es' = length (elves c)"
    "\<forall>i<length (elves c). follow 5 0.5 time (elves c ! i) = Inr (es' ! i)" by blast
  show ?thesis
  proof (cases "santa c")
    case None
    then show ?thesis using es' by (simp add: animateCharacters_def)
  next
    case (Some s)
    with assms(2) have "pathIndex s < length (path s)" by simp
    from follow_Inr[OF this, of 4 "0.3" time] obtain s' where "follow 4 0.3 time s = Inr s'" by blast
    then show ?thesis using es' Some by (simp add: animateCharacters_def animate_santa_def)
  qed
qed

section \<open>Single-precision stores\<close>

text \<open>Rounding to the nearest integer moves a number by at most one half, and a number
  within one half of an integer is rounded to it.\<close>

lemma round_even_near: "\<bar>of_int (round_even t) - t\<bar> \<le> 1/2"
  unfolding round_even_def by (auto simp: abs_if) linarith+

lemma round_even_eq:
  assumes "of_int m - 1/2 < t" and "t < of_int m + 1/2"
  shows "round_even t = m"
proof -
  have "\<bar>of_int (round_even t) - t\<bar> \<le> 1/2" by (rule round_even_near)
  with assms have "\<bar>(of_int (round_even t) :: real) - of_int m\<bar> < 1" by linarith
  then have "\<bar>round_even t - m\<bar> < 1"
    by (metis of_int_diff of_int_abs of_int_less_1_iff)
  then show ?thesis by linarith
qed

lemma round_even_of_int: "round_even (of_int m) = m"
  by (rule round_even_eq) simp_all

text \<open>The stored number, given the binary exponent of \<open>x\<close> and the integer nearest to the
  scaled significand.\<close>

lemma floor_log2_eq:
  assumes "2 powi e \<le> a" and "a < 2 powi (e + 1)"
  shows "\<lfloor>log 2 a\<rfloor> = e"
proof -
  have pos: "0 < a" using assms(1) zero_less_power_int[of "2::real" e] by linarith
  have a: "(2::real) powr (of_int e) = 2 powi e"
    by (rule powr_real_of_int') simp_all
  have b: "(2::real) powr (of_int (e + 1)) = 2 powi (e + 1)"
    by (rule powr_real_of_int') simp_all
  have "2 powr (of_int e) \<le> a \<and> a < 2 powr (of_int (e + 1))"
    unfolding a b using assms by blast
  moreover have "\<lfloor>log 2 a\<rfloor> = e \<longleftrightarrow> 2 powr (of_int e) \<le> a \<and> a < 2 powr (of_int (e + 1))"
    by (rule floor_log_eq_powr_iff[OF pos]) simp
  ultimately show ?thesis by blast
qed

lemma fround_eq:
  assumes "2 powi e \<le> \<bar>x\<bar>" and "\<bar>x\<bar> < 2 powi (e + 1)" and "- 126 \<le> e"
    and "of_int m - 1/2 < x / 2 powi (e - 23)" and "x / 2 powi (e - 23) < of_int m + 1/2"
  shows "fround x = of_int m * 2 powi (e - 23)"
proof -
  have "0 < (2::real) powi e" by simp
  with assms(1) have "0 < \<bar>x\<bar>" by linarith
  then have nz: "x \<noteq> 0" by simp
  have "\<lfloor>log 2 \<bar>x\<bar>\<rfloor> = e" by (rule floor_log2_eq[OF assms(1,2)])
  then show ?thesis using nz assms(3) round_even_eq[OF assms(4,5)]
    by (simp add: fround_def Let_def max_def)
qed

text \<open>Some stored numbers. \<open>20 * sqrt 2\<close> is the coordinate of the point at distance 40 on
  the diagonal; in single precision it is 28.284271240234375.\<close>

lemma fround_0: "fround 0 = 0"
  by (simp add: fround_def)


lemma fround_256th: "fround (1/256) = 1/256"
  using fround_eq[of "-8" "1/256" 8388608] by simp






section \<open>Ground mist: the radial clamp\<close>
















section \<open>Particle systems at zero time step\<close>

text \<open>A smoke particle whose lifetime is below 1 is left as it is by a step of length 0.\<close>

lemma smoke_particle_step_zero:
  "lifetime p < 1 \<Longrightarrow> smoke_particle_step rnd 0 (p, k) = (p, k)"
  by (simp add: smoke_particle_step_def Let_def)

lemma smoke_loop_zero:
  "\<forall>p\<in>set ps. lifetime p < 1 \<Longrightarrow> smoke_loop rnd 0 ps k = (ps, k)"
  by (induction ps) (simp_all add: smoke_particle_step_zero Let_def)

lemma smoke_systems_zero:
  "\<forall>sm\<in>set sms. \<forall>p\<in>set sm. lifetime p < 1 \<Longrightarrow> smoke_systems rnd 0 sms k = (sms, k)"
  by (induction sms) (simp_all add: smoke_loop_zero Let_def)

lemma updateParticleSystems_zero_smoke:
  assumes "\<forall>sm\<in>set (chimneySmoke (fst s)). \<forall>p\<in>set sm. lifetime p < 1"
  shows "chimneySmoke (fst (updateParticleSystems rnd 0 time s)) = chimneySmoke (fst s)"
  using assms by (simp add: updateParticleSystems_def Let_def smoke_systems_zero)

text \<open>After a call the lifetime of every smoke particle is below 1, whatever the time
  step: a particle that reaches 1 is reset to 0 in the same iteration. (The lifetimes start
  as draws of \<^verbatim>\<open>Math.random()\<close>, which are below 1.)\<close>

lemma smoke_particle_step_lifetime:
  "lifetime (fst (smoke_particle_step rnd dt pk)) < 1"
  by (simp add: smoke_particle_step_def Let_def)

lemma smoke_loop_lifetime:
  "\<forall>p\<in>set (fst (smoke_loop rnd dt ps k)). lifetime p < 1"
  by (induction ps arbitrary: k) (simp_all add: Let_def smoke_particle_step_lifetime)

lemma smoke_systems_lifetime:
  "\<forall>sm\<in>set (fst (smoke_systems rnd dt sms k)). \<forall>p\<in>set sm. lifetime p < 1"
  by (induction sms arbitrary: k) (simp_all add: Let_def smoke_loop_lifetime)

text \<open>Claim C2, for the one particle system whose update uses \<^verbatim>\<open>deltaTime\<close>: any number of
  calls of \<^verbatim>\<open>updateParticleSystems\<close> with \<^verbatim>\<open>deltaTime\<close> zero leave every chimney smoke system
  (position, velocity and lifetime of every particle) unchanged, the lifetimes being below
  1 as the code keeps them.\<close>

theorem smoke_unchanged_at_zero_deltaTime:
  assumes "\<forall>sm\<in>set (chimneySmoke (fst s)). \<forall>p\<in>set sm. lifetime p < 1"
    and "\<forall>t\<in>set ts. fst t = 0"
  shows "chimneySmoke (fst (particle_ticks rnd ts s)) = chimneySmoke (fst s)"
  using assms
proof (induction ts arbitrary: s)
  case Nil
  show ?case by simp
next
  case (Cons t ts)
  let ?s1 = "updateParticleSystems rnd (fst t) (snd t) s"
  have z: "fst t = 0" using Cons.prems(2) by simp
  have e: "chimneySmoke (fst ?s1) = chimneySmoke (fst s)"
    unfolding z by (rule updateParticleSystems_zero_smoke[OF Cons.prems(1)])
  have "chimneySmoke (fst (particle_ticks rnd ts ?s1)) = chimneySmoke (fst ?s1)"
  proof (rule Cons.IH)
    show "\<forall>sm\<in>set (chimneySmoke (fst ?s1)). \<forall>p\<in>set sm. lifetime p < 1"
      unfolding e by (rule Cons.prems(1))
    show "\<forall>t\<in>set ts. fst t = 0" using Cons.prems(2) by simp
  qed
  with e show ?case by simp
qed

theorem smoke_unchanged_at_zero_deltaTime_witness:
  "lifetime smoke_puff < 1
   \<and> chimneySmoke (fst (particle_ticks (\<lambda>n. 0) [(0, 0), (0, pi / 2)] (drifting_scene, 0)))
       = [[smoke_puff]]"
proof -
  have l: "lifetime smoke_puff < 1" by (simp add: smoke_puff_def)
  then have a: "\<forall>sm\<in>set (chimneySmoke (fst (drifting_scene, 0::nat))). \<forall>p\<in>set sm. lifetime p < 1"
    by (simp add: drifting_scene_def)
  have b: "\<forall>t\<in>set [(0::real, 0::real), (0, pi / 2)]. fst t = 0" by simp
  from smoke_unchanged_at_zero_deltaTime[OF a b, of "\<lambda>n. 0"] l
  show ?thesis by (simp add: drifting_scene_def)
qed

text \<open>Claim C2 as stated fails for the other three systems: with \<^verbatim>\<open>deltaTime\<close> zero one call
  of \<^verbatim>\<open>updateParticleSystems\<close> moves a ground-mist particle and a firefly, and
  \<^verbatim>\<open>animateSnow\<close>, which has no time step at all, moves a snow particle.\<close>

theorem positions_change_at_zero_deltaTime:
  "groundMist (fst (updateParticleSystems (\<lambda>n. 0) 0 (pi / 2) (drifting_scene, 0)))
     \<noteq> groundMist drifting_scene
   \<and> map fly_y (the (fireflies (fst (updateParticleSystems (\<lambda>n. 0) 0 (pi / 2) (drifting_scene, 0)))))
     \<noteq> map fly_y (the (fireflies drifting_scene))
   \<and> fst (animateSnow (\<lambda>n. 0) 0
            (Some [\<lparr>pos_x = 0, pos_y = 10, pos_z = 0, vel_x = 0, vel_y = - (1/4), vel_z = 0\<rparr>], 0))
     \<noteq> Some [\<lparr>pos_x = 0, pos_y = 10, pos_z = 0, vel_x = 0, vel_y = - (1/4), vel_z = 0\<rparr>]"
proof -
  have r: "sqrt (1 / 65536) = 1 / 256" by (simp add: real_sqrt_divide)
  show ?thesis
    by (simp add: updateParticleSystems_def drifting_scene_def mist_particle_step_def
        animateSnow_def animateSnow_particle_def Let_def fround_0 fround_256th r)
qed

section \<open>Snow particles reaching the ground\<close>

text \<open>Claim C6 (a snow particle reaching the ground triggers exactly one accumulation event
  at its place) on a frame of the code that runs both \<^verbatim>\<open>animateSnow\<close> and \<^verbatim>\<open>updateSnow\<close>: a
  flake at height 1/8 falling by 1/4 is put back at height 80 by \<^verbatim>\<open>animateSnow\<close>, and the
  \<^verbatim>\<open>updateSnow\<close> that follows finds no flake on the ground, so the drift collection stays
  empty, with draws that make any impact spawn a drift. \<^verbatim>\<open>updateSnow\<close> on the same flake left
  below the ground does record the impact.\<close>

theorem flake_reset_without_impact:
  "snow_frame landing_draws 0 True (\<lparr>snowAccumulationGroup = [], snow = Some [falling_flake]\<rparr>, 0)
     = (\<lparr>snowAccumulationGroup = [],
         snow = Some [\<lparr>pos_x = 0, pos_y = 80, pos_z = 0,
                       vel_x = 0, vel_y = - (7/20), vel_z = 0\<rparr>]\<rparr>, 5)
   \<and> snowAccumulationGroup
       (fst (updateSnow landing_draws
               (\<lparr>snowAccumulationGroup = [], snow = Some [falling_flake\<lparr>pos_y := - (1/8)\<rparr>]\<rparr>, 5)))
     = [new_drift 0.5 0.2 8 0 0 0 0.0001]"
  by (simp add: snow_frame_def animateSnow_def animateSnow_particle_def updateSnow_def
      falling_flake_def landing_draws_def addToSnowCover_def scan_drifts_def scan_init_def Let_def)

text \<open>After \<^verbatim>\<open>animateSnow\<close> no particle is below the ground and every particle is inside
  the horizontal bounds; \<^verbatim>\<open>updateSnow\<close> records nothing for particles above the ground.\<close>

lemma animateSnow_particle_above_ground:
  "0 \<le> pos_y (fst (animateSnow_particle rnd time pk))"
  by (simp add: animateSnow_particle_def Let_def)

lemma animateSnow_particle_inside:
  "- 60 \<le> pos_x (fst (animateSnow_particle rnd time pk))
   \<and> pos_x (fst (animateSnow_particle rnd time pk)) \<le> 60
   \<and> - 60 \<le> pos_z (fst (animateSnow_particle rnd time pk))
   \<and> pos_z (fst (animateSnow_particle rnd time pk)) \<le> 60"
  by (simp add: animateSnow_particle_def Let_def)

lemma animateSnow_loop_above_ground:
  "\<forall>q\<in>set (fst (animateSnow_loop rnd time ps k)). 0 \<le> pos_y q"
  by (induction ps arbitrary: k) (simp_all add: Let_def animateSnow_particle_above_ground)

lemma land_particles_airborne:
  "\<forall>p\<in>set ps. 0 < pos_y p \<Longrightarrow> land_particles rnd ps s = (ps, s)"
  by (induction ps) (simp_all add: Let_def)

end
